theory Spec2Isabelle
  imports Main "HOL-Library.Sublist"
begin

section \<open>Values of the host language\<close>

text \<open>
  Strings are lists of 8-bit code units. An exception is a value: every operation that
  can throw returns an \<open>outcome\<close> together with the database as it stands at the throw,
  because the store is written row by row with no enclosing transaction.
\<close>

datatype error =
    SyntaxError string
  | TypeError string
  | Error string
  | PrismaError string

fun message :: "error \<Rightarrow> string" where
  "message (SyntaxError m) = m"
| "message (TypeError m) = m"
| "message (Error m) = m"
| "message (PrismaError m) = m"

datatype 'a outcome = Return 'a | Throw error

text \<open>
  \<open>new Date(s)\<close> is kept as the string it was built from and \<open>new Date()\<close> as the clock
  reading; \<open>parseFloat(s)\<close> is kept as the string it was applied to. The constructors stand
  for the uninterpreted results: no statement below depends on two different strings
  denoting different dates or numbers.
\<close>

datatype js_date = DateOf string | Now nat

datatype js_number = ParseFloat string

text \<open>
  A property that may be missing from an object: written to the store, \<open>undefined\<close> leaves
  a column as it is (as it is by default, in a new row), \<open>null\<close> empties it.
\<close>

datatype 'a js = Undefined | Null | Value 'a

fun set_field :: "'a js \<Rightarrow> 'a option \<Rightarrow> 'a option" where
  "set_field Undefined old = old"
| "set_field Null old = None"
| "set_field (Value v) old = Some v"

section \<open>The local store\<close>

record shop_row =
  shop_id :: nat
  shop_shopifyId :: int
  shop_name :: string
  shop_domain :: string
  shop_email :: string
  shop_currency :: string
  shop_updatedAt :: "js_date option"
  shop_lastSyncAt :: "js_date option"

record product_row =
  product_id :: nat
  product_productId :: int
  product_shopId :: nat
  product_title :: string
  product_handle :: string
  product_vendor :: string
  product_status :: string
  product_createdAt :: js_date
  product_updatedAt :: js_date

record variant_row =
  variant_id :: nat
  variant_variantId :: int
  variant_productId :: nat
  variant_title :: string
  variant_price :: js_number
  variant_sku :: string
  variant_inventoryQuantity :: int
  variant_createdAt :: js_date
  variant_updatedAt :: js_date

record image_row =
  image_id :: nat
  image_imageId :: int
  image_productId :: nat
  image_alt :: string
  image_width :: int
  image_height :: int
  image_src :: string
  image_updatedAt :: "js_date option"

record customer_row =
  customer_id :: nat
  customer_customerId :: int
  customer_shopId :: nat
  customer_firstName :: string
  customer_lastName :: string
  customer_email :: string
  customer_phone :: string
  customer_totalSpent :: "js_number option"
  customer_ordersCount :: "int option"
  customer_createdAt :: js_date
  customer_updatedAt :: js_date

text \<open>The thirteen postal fields of a customer address, copied as they come.\<close>

record postal_fields =
  pf_firstName :: string
  pf_lastName :: string
  pf_company :: string
  pf_address1 :: string
  pf_address2 :: string
  pf_city :: string
  pf_province :: string
  pf_country :: string
  pf_zip :: string
  pf_phone :: string
  pf_name :: string
  pf_provinceCode :: string
  pf_countryCode :: string

record customerAddress_row =
  caddr_id :: nat
  caddr_addressId :: int
  caddr_customerId :: nat
  caddr_fields :: postal_fields
  caddr_default :: bool

record order_row =
  order_id :: nat
  order_orderId :: int
  order_shopId :: nat
  order_orderNumber :: string
  order_email :: "string option"
  order_financialStatus :: "string option"
  order_fulfillmentStatus :: "string option"
  order_totalPrice :: "js_number option"
  order_currency :: "string option"
  order_customerId :: "nat option"
  order_createdAt :: js_date
  order_updatedAt :: js_date

record orderItem_row =
  item_id :: nat
  item_orderId :: nat
  item_productVariantId :: "nat option"
  item_productId :: "nat option"
  item_quantity :: int
  item_price :: js_number

text \<open>The fifteen postal fields of a shipping or billing address, copied as they come.\<close>

record mailing_address =
  addr_firstName :: "string option"
  addr_lastName :: "string option"
  addr_company :: "string option"
  addr_address1 :: "string option"
  addr_address2 :: "string option"
  addr_city :: "string option"
  addr_province :: "string option"
  addr_country :: "string option"
  addr_zip :: "string option"
  addr_phone :: "string option"
  addr_name :: "string option"
  addr_countryCodeV2 :: "string option"
  addr_provinceCode :: "string option"
  addr_latitude :: "js_number option"
  addr_longitude :: "js_number option"

record orderAddress_row =
  oaddr_orderId :: nat
  oaddr_fields :: mailing_address

record collection_row =
  collection_id :: nat
  collection_collectionId :: int
  collection_shopId :: nat
  collection_handle :: string
  collection_title :: string
  collection_createdAt :: js_date
  collection_updatedAt :: js_date

record collectionProduct_row =
  cp_collectionId :: nat
  cp_productId :: nat

text \<open>
  A SyncLog row. The columns that \<open>createSyncLog\<close> does not write are options: \<open>None\<close>
  means the code has not written the column, which then holds whatever the schema gives it.
\<close>

record syncLog_row =
  log_id :: nat
  log_shopId :: nat
  log_syncType :: string
  log_entityType :: string
  log_status :: string
  log_recordsProcessed :: "nat option"
  log_recordsTotal :: "nat option"
  log_completedAt :: "js_date option"
  log_errorMessage :: "string option"

text \<open>
  The store: one list of rows per table, in insertion order, and the clock that
  \<open>new Date()\<close> reads. The clock is not advanced by the operations themselves; a later
  call is given a later clock by updating the field.
\<close>

record db =
  clock :: nat
  shops :: "shop_row list"
  products :: "product_row list"
  productVariants :: "variant_row list"
  productImages :: "image_row list"
  customers :: "customer_row list"
  customerAddresses :: "customerAddress_row list"
  orders :: "order_row list"
  orderItems :: "orderItem_row list"
  shippingAddresses :: "orderAddress_row list"
  billingAddresses :: "orderAddress_row list"
  collections :: "collection_row list"
  collectionProducts :: "collectionProduct_row list"
  syncLogs :: "syncLog_row list"

definition empty_db :: db where
  "empty_db = \<lparr> clock = 0, shops = [], products = [], productVariants = [],
     productImages = [], customers = [], customerAddresses = [],
     orders = [], orderItems = [],
     shippingAddresses = [], billingAddresses = [], collections = [],
     collectionProducts = [], syncLogs = [] \<rparr>"

text \<open>A SERIAL primary key: the next value is above every key in the table.\<close>

definition fresh_id :: "nat list \<Rightarrow> nat" where
  "fresh_id ids = Suc (fold max ids 0)"

section \<open>Sync log\<close>

definition createSyncLog :: "nat \<Rightarrow> string \<Rightarrow> string \<Rightarrow> db \<Rightarrow> syncLog_row \<times> db" where
  "createSyncLog shopId entityType syncType d =
     (let row = \<lparr> log_id = fresh_id (map log_id (syncLogs d)), log_shopId = shopId,
                   log_syncType = syncType, log_entityType = entityType,
                   log_status = ''started'', log_recordsProcessed = None,
                   log_recordsTotal = None, log_completedAt = None,
                   log_errorMessage = None \<rparr>
      in (row, d\<lparr> syncLogs := syncLogs d @ [row] \<rparr>))"

text \<open>\<open>db.syncLog.update\<close> by primary key: it throws when no row has the key.\<close>

definition syncLog_update ::
  "nat \<Rightarrow> (syncLog_row \<Rightarrow> syncLog_row) \<Rightarrow> db \<Rightarrow> unit outcome \<times> db" where
  "syncLog_update syncLogId f d =
     (if \<exists>r \<in> set (syncLogs d). log_id r = syncLogId
      then (Return (), d\<lparr> syncLogs := map (\<lambda>r. if log_id r = syncLogId then f r else r) (syncLogs d) \<rparr>)
      else (Throw (PrismaError ''Record to update not found.''), d))"

definition updateSyncLog :: "nat \<Rightarrow> nat \<Rightarrow> db \<Rightarrow> unit outcome \<times> db" where
  "updateSyncLog syncLogId recordsProcessed d =
     syncLog_update syncLogId (\<lambda>r. r\<lparr> log_recordsProcessed := Some recordsProcessed \<rparr>) d"

definition completeSyncLog :: "nat \<Rightarrow> nat \<Rightarrow> nat \<Rightarrow> db \<Rightarrow> unit outcome \<times> db" where
  "completeSyncLog syncLogId recordsProcessed recordsTotal d =
     syncLog_update syncLogId
       (\<lambda>r. r\<lparr> log_status := ''completed'', log_recordsProcessed := Some recordsProcessed,
               log_recordsTotal := Some recordsTotal, log_completedAt := Some (Now (clock d)) \<rparr>) d"

definition failSyncLog :: "nat \<Rightarrow> string \<Rightarrow> db \<Rightarrow> unit outcome \<times> db" where
  "failSyncLog syncLogId errorMessage d =
     syncLog_update syncLogId
       (\<lambda>r. r\<lparr> log_status := ''failed'', log_errorMessage := Some errorMessage,
               log_completedAt := Some (Now (clock d)) \<rparr>) d"

text \<open>The invariant of the data model, as a check over the whole table.\<close>

definition log_ok :: "syncLog_row \<Rightarrow> bool" where
  "log_ok r \<longleftrightarrow>
     ((log_completedAt r \<noteq> None) = (log_status r = ''completed'' \<or> log_status r = ''failed''))"

definition syncLog_inv :: "db \<Rightarrow> bool" where
  "syncLog_inv d \<longleftrightarrow> list_all log_ok (syncLogs d)"

section \<open>Remote identifiers\<close>

text \<open>
  \<open>String.prototype.replace\<close> with a string pattern: the first occurrence of the pattern is
  replaced, and a string without the pattern is returned unchanged.
\<close>

fun replace_first :: "string \<Rightarrow> string \<Rightarrow> string \<Rightarrow> string" where
  "replace_first pat rep [] = (if pat = [] then rep else [])"
| "replace_first pat rep (c # cs) =
     (if prefix pat (c # cs) then rep @ drop (length pat) (c # cs)
      else c # replace_first pat rep cs)"

text \<open>
  \<open>BigInt(string)\<close>: white space is trimmed, the empty string is zero, and what is left
  must be decimal digits with an optional sign, or an unsigned literal in radix 16, 8 or
  2 after \<open>0x\<close>, \<open>0o\<close> or \<open>0b\<close>. Anything else throws a SyntaxError. The result is
  unbounded.
\<close>

definition is_white :: "char \<Rightarrow> bool" where
  "is_white c \<longleftrightarrow> (of_char c :: nat) \<in> {9, 10, 11, 12, 13, 32, 160}"

definition trim :: "string \<Rightarrow> string" where
  "trim s = rev (dropWhile is_white (rev (dropWhile is_white s)))"

definition digit_of :: "nat \<Rightarrow> char \<Rightarrow> nat option" where
  "digit_of radix c =
     (let n = (of_char c :: nat);
          v = (if 48 \<le> n \<and> n \<le> 57 then Some (n - 48)
               else if 97 \<le> n \<and> n \<le> 102 then Some (n - 87)
               else if 65 \<le> n \<and> n \<le> 70 then Some (n - 55)
               else None)
      in case v of None \<Rightarrow> None | Some k \<Rightarrow> if k < radix then Some k else None)"

fun parse_digits :: "nat \<Rightarrow> string \<Rightarrow> nat \<Rightarrow> nat option" where
  "parse_digits radix [] acc = Some acc"
| "parse_digits radix (c # cs) acc =
     (case digit_of radix c of
        None \<Rightarrow> None
      | Some k \<Rightarrow> parse_digits radix cs (acc * radix + k))"

definition digits :: "nat \<Rightarrow> string \<Rightarrow> nat option" where
  "digits radix s = (if s = [] then None else parse_digits radix s 0)"

definition StringToBigInt :: "string \<Rightarrow> int option" where
  "StringToBigInt s =
     (case trim s of
        [] \<Rightarrow> Some 0
      | c # cs \<Rightarrow>
          if c = CHR ''+'' then map_option int (digits 10 cs)
          else if c = CHR ''-'' then map_option (\<lambda>n. - int n) (digits 10 cs)
          else if c = CHR ''0'' \<and> cs \<noteq> [] \<and> hd cs \<in> {CHR ''x'', CHR ''X''}
            then map_option int (digits 16 (tl cs))
          else if c = CHR ''0'' \<and> cs \<noteq> [] \<and> hd cs \<in> {CHR ''o'', CHR ''O''}
            then map_option int (digits 8 (tl cs))
          else if c = CHR ''0'' \<and> cs \<noteq> [] \<and> hd cs \<in> {CHR ''b'', CHR ''B''}
            then map_option int (digits 2 (tl cs))
          else map_option int (digits 10 (c # cs)))"

definition BigInt :: "string \<Rightarrow> int outcome" where
  "BigInt s =
     (case StringToBigInt s of
        None \<Rightarrow> Throw (SyntaxError (''Cannot convert '' @ s @ '' to a BigInt''))
      | Some v \<Rightarrow> Return v)"

text \<open>
  The expression \<open>BigInt(x.id.replace('gid://shopify/<Type>/', ''))\<close> that every entity
  mapping starts with; \<open>pre\<close> is the entity's prefix.
\<close>

definition remote_id :: "string \<Rightarrow> string \<Rightarrow> int outcome" where
  "remote_id pre gid = BigInt (replace_first pre [] gid)"

text \<open>
  The number a string of decimal digits denotes, written independently of the parser:
  the last digit counts once, the one before it ten times, and so on.
\<close>

definition decimal_digit :: "char \<Rightarrow> bool" where
  "decimal_digit c \<longleftrightarrow> 48 \<le> (of_char c :: nat) \<and> (of_char c :: nat) \<le> 57"

fun decimal_rev :: "string \<Rightarrow> nat" where
  "decimal_rev [] = 0"
| "decimal_rev (c # cs) = (of_char c - 48) + 10 * decimal_rev cs"

definition decimal_value :: "string \<Rightarrow> nat" where
  "decimal_value ds = decimal_rev (rev ds)"

text \<open>
  The strings that are integer literals after white space is trimmed, as the grammar of
  the language gives them, written independently of the parser: the empty string,
  decimal digits with or without a sign, and digits in radix 16, 8 or 2 after a prefix.
\<close>

definition digit_string :: "string \<Rightarrow> string \<Rightarrow> bool" where
  "digit_string alphabet ds \<longleftrightarrow> ds \<noteq> [] \<and> list_all (\<lambda>c. c \<in> set alphabet) ds"

definition integer_literal :: "string \<Rightarrow> bool" where
  "integer_literal s \<longleftrightarrow>
     s = []
     \<or> digit_string ''0123456789'' s
     \<or> (s \<noteq> [] \<and> hd s \<in> {CHR ''+'', CHR ''-''} \<and> digit_string ''0123456789'' (tl s))
     \<or> (take 2 s \<in> {''0x'', ''0X''} \<and> digit_string ''0123456789abcdefABCDEF'' (drop 2 s))
     \<or> (take 2 s \<in> {''0o'', ''0O''} \<and> digit_string ''01234567'' (drop 2 s))
     \<or> (take 2 s \<in> {''0b'', ''0B''} \<and> digit_string ''01'' (drop 2 s))"

section \<open>Remote read API\<close>

text \<open>
  One page of a cursor-paginated query: \<open>edges[].node\<close> and \<open>pageInfo\<close>. The remote is a
  function from the number of requests answered so far and the \<open>cursor\<close> variable of the
  request to a page, or to the error that \<open>admin.graphql\<close> or the access to the response
  throws.
\<close>

record 'n page =
  edges :: "'n list"
  hasNextPage :: bool
  endCursor :: "string option"

type_synonym 'n graphql = "nat \<Rightarrow> string option \<Rightarrow> 'n page outcome"

text \<open>Truthiness of a value that is a string or null: only a non-empty string is truthy.\<close>

fun truthy :: "string option \<Rightarrow> bool" where
  "truthy None = False"
| "truthy (Some s) = (s \<noteq> [])"

record variant_node =
  vn_id :: string
  vn_title :: string
  vn_price :: string
  vn_sku :: string
  vn_inventoryQuantity :: int
  vn_createdAt :: string
  vn_updatedAt :: string

record image_node =
  in_id :: string
  in_altText :: string
  in_width :: int
  in_height :: int
  in_url :: string

record product_node =
  pn_id :: string
  pn_title :: string
  pn_handle :: string
  pn_vendor :: string
  pn_status :: string
  pn_createdAt :: string
  pn_updatedAt :: string
  pn_variants :: "variant_node list"
  pn_images :: "image_node list"

section \<open>Upsert\<close>

text \<open>
  \<open>upsert({where, update, create})\<close> on a table with a unique key: the row that matches
  is updated in place, and when there is none the new row is appended. The row is returned.
\<close>

definition upsert :: "('r \<Rightarrow> bool) \<Rightarrow> ('r \<Rightarrow> 'r) \<Rightarrow> 'r \<Rightarrow> 'r list \<Rightarrow> 'r \<times> 'r list" where
  "upsert matches update create rows =
     (case find matches rows of
        Some r \<Rightarrow> (update r, map (\<lambda>x. if matches x then update x else x) rows)
      | None \<Rightarrow> (create, rows @ [create]))"

text \<open>\<open>toLowerCase\<close> on the letters A to Z; it is applied to the status enum of the remote.\<close>

definition toLowerCase :: "string \<Rightarrow> string" where
  "toLowerCase =
     map (\<lambda>c. case map_of (zip ''ABCDEFGHIJKLMNOPQRSTUVWXYZ'' ''abcdefghijklmnopqrstuvwxyz'') c of
                 Some l \<Rightarrow> l
               | None \<Rightarrow> c)"

section \<open>Product sync\<close>

definition upsert_product :: "nat \<Rightarrow> int \<Rightarrow> product_node \<Rightarrow> db \<Rightarrow> product_row \<times> db" where
  "upsert_product shopId productId productData d =
     (let (row, rows) =
        upsert (\<lambda>r. product_productId r = productId)
          (\<lambda>r. r\<lparr> product_title := pn_title productData,
                   product_handle := pn_handle productData,
                   product_vendor := pn_vendor productData,
                   product_status := toLowerCase (pn_status productData),
                   product_updatedAt := DateOf (pn_updatedAt productData) \<rparr>)
          \<lparr> product_id = fresh_id (map product_id (products d)),
            product_productId = productId,
            product_shopId = shopId,
            product_title = pn_title productData,
            product_handle = pn_handle productData,
            product_vendor = pn_vendor productData,
            product_status = toLowerCase (pn_status productData),
            product_createdAt = DateOf (pn_createdAt productData),
            product_updatedAt = DateOf (pn_updatedAt productData) \<rparr>
          (products d)
      in (row, d\<lparr> products := rows \<rparr>))"

definition upsert_variant :: "nat \<Rightarrow> int \<Rightarrow> variant_node \<Rightarrow> db \<Rightarrow> variant_row \<times> db" where
  "upsert_variant productLocalId variantId variant d =
     (let (row, rows) =
        upsert (\<lambda>r. variant_variantId r = variantId)
          (\<lambda>r. r\<lparr> variant_title := vn_title variant,
                   variant_price := ParseFloat (vn_price variant),
                   variant_sku := vn_sku variant,
                   variant_inventoryQuantity := vn_inventoryQuantity variant,
                   variant_updatedAt := DateOf (vn_updatedAt variant) \<rparr>)
          \<lparr> variant_id = fresh_id (map variant_id (productVariants d)),
            variant_variantId = variantId,
            variant_productId = productLocalId,
            variant_title = vn_title variant,
            variant_price = ParseFloat (vn_price variant),
            variant_sku = vn_sku variant,
            variant_inventoryQuantity = vn_inventoryQuantity variant,
            variant_createdAt = DateOf (vn_createdAt variant),
            variant_updatedAt = DateOf (vn_updatedAt variant) \<rparr>
          (productVariants d)
      in (row, d\<lparr> productVariants := rows \<rparr>))"

definition upsert_image :: "nat \<Rightarrow> int \<Rightarrow> image_node \<Rightarrow> db \<Rightarrow> image_row \<times> db" where
  "upsert_image productLocalId imageId img d =
     (let (row, rows) =
        upsert (\<lambda>r. image_imageId r = imageId)
          (\<lambda>r. r\<lparr> image_alt := in_altText img,
                   image_width := in_width img,
                   image_height := in_height img,
                   image_src := in_url img,
                   image_updatedAt := Some (Now (clock d)) \<rparr>)
          \<lparr> image_id = fresh_id (map image_id (productImages d)),
            image_imageId = imageId,
            image_productId = productLocalId,
            image_alt = in_altText img,
            image_width = in_width img,
            image_height = in_height img,
            image_src = in_url img,
            image_updatedAt = None \<rparr>
          (productImages d)
      in (row, d\<lparr> productImages := rows \<rparr>))"

fun syncVariants :: "nat \<Rightarrow> variant_node list \<Rightarrow> db \<Rightarrow> unit outcome \<times> db" where
  "syncVariants productLocalId [] d = (Return (), d)"
| "syncVariants productLocalId (variant # rest) d =
     (case remote_id ''gid://shopify/ProductVariant/'' (vn_id variant) of
        Throw e \<Rightarrow> (Throw e, d)
      | Return variantId \<Rightarrow>
          syncVariants productLocalId rest (snd (upsert_variant productLocalId variantId variant d)))"

fun syncImages :: "nat \<Rightarrow> image_node list \<Rightarrow> db \<Rightarrow> unit outcome \<times> db" where
  "syncImages productLocalId [] d = (Return (), d)"
| "syncImages productLocalId (img # rest) d =
     (case remote_id ''gid://shopify/ProductImage/'' (in_id img) of
        Throw e \<Rightarrow> (Throw e, d)
      | Return imageId \<Rightarrow>
          syncImages productLocalId rest (snd (upsert_image productLocalId imageId img d)))"

definition syncSingleProduct :: "nat \<Rightarrow> product_node \<Rightarrow> db \<Rightarrow> unit outcome \<times> db" where
  "syncSingleProduct shopId productData d =
     (case remote_id ''gid://shopify/Product/'' (pn_id productData) of
        Throw e \<Rightarrow> (Throw e, d)
      | Return productId \<Rightarrow>
          (let (product, d1) = upsert_product shopId productId productData d in
           case syncVariants (product_id product) (pn_variants productData) d1 of
             (Throw e, d2) \<Rightarrow> (Throw e, d2)
           | (Return _, d2) \<Rightarrow> syncImages (product_id product) (pn_images productData) d2))"

text \<open>
  The \<open>for\<close> loop over the records of one page: each record is synced and then counted.
  A throw leaves the loop; the counter it had reached is not part of what is thrown.
\<close>

fun syncProductEdges :: "nat \<Rightarrow> product_node list \<Rightarrow> nat \<Rightarrow> db \<Rightarrow> nat outcome \<times> db" where
  "syncProductEdges shopId [] totalProducts d = (Return totalProducts, d)"
| "syncProductEdges shopId (product # rest) totalProducts d =
     (case syncSingleProduct shopId product d of
        (Throw e, d1) \<Rightarrow> (Throw e, d1)
      | (Return _, d1) \<Rightarrow> syncProductEdges shopId rest (Suc totalProducts) d1)"

text \<open>
  The \<open>do ... while (cursor)\<close> loop, which the four entity syncs share word for word; they
  differ in the query, which is the remote \<open>admin\<close>, and in the loop over the records of a
  page, which is \<open>syncEdges\<close>. \<open>reqs\<close> is the list of \<open>cursor\<close> variables sent so far,
  oldest first; the loop returns it with the final counter. The loop runs as long as the
  remote keeps answering with a next page and a truthy cursor, so it is a partial
  function: \<open>None\<close> is a run that never ends.
\<close>

partial_function (option) sync_loop ::
  "('n list \<Rightarrow> nat \<Rightarrow> db \<Rightarrow> nat outcome \<times> db) \<Rightarrow> 'n graphql \<Rightarrow> nat \<Rightarrow> string option list
     \<Rightarrow> string option \<Rightarrow> nat \<Rightarrow> db \<Rightarrow> (nat outcome \<times> string option list \<times> db) option" where
  "sync_loop syncEdges admin syncLogId reqs cur totalRecords d =
     (let variables = (if truthy cur then cur else None) in
      case admin (length reqs) variables of
        Throw e \<Rightarrow> Some (Throw e, reqs @ [variables], d)
      | Return pageData \<Rightarrow>
          (case syncEdges (edges pageData) totalRecords d of
             (Throw e, d1) \<Rightarrow> Some (Throw e, reqs @ [variables], d1)
           | (Return n, d1) \<Rightarrow>
               (let cur' = (if hasNextPage pageData then endCursor pageData else None) in
                case updateSyncLog syncLogId n d1 of
                  (Throw e, d2) \<Rightarrow> Some (Throw e, reqs @ [variables], d2)
                | (Return _, d2) \<Rightarrow>
                    if truthy cur'
                    then sync_loop syncEdges admin syncLogId (reqs @ [variables]) cur' n d2
                    else Some (Return n, reqs @ [variables], d2))))"

text \<open>
  The body shared by \<open>syncProducts\<close>, \<open>syncCustomers\<close>, \<open>syncOrders\<close> and
  \<open>syncCollections\<close>: the log row is created, the \<open>try\<close> block runs the loop and completes
  the log, and the \<open>catch\<close> block fails the log and throws the error again.
\<close>

definition sync_entity ::
  "string \<Rightarrow> ('n list \<Rightarrow> nat \<Rightarrow> db \<Rightarrow> nat outcome \<times> db) \<Rightarrow> 'n graphql \<Rightarrow> nat \<Rightarrow> db
     \<Rightarrow> (unit outcome \<times> string option list \<times> db) option" where
  "sync_entity entityType syncEdges admin shopId d =
     (let (syncLog, d0) = createSyncLog shopId entityType ''initial'' d in
      case sync_loop syncEdges admin (log_id syncLog) [] None 0 d0 of
        None \<Rightarrow> None
      | Some (r, reqs, d1) \<Rightarrow>
          (let (body, d2) =
             (case r of
                Throw e \<Rightarrow> (Throw e, d1)
              | Return totalRecords \<Rightarrow>
                  completeSyncLog (log_id syncLog) totalRecords totalRecords d1)
           in case body of
                Return _ \<Rightarrow> Some (Return (), reqs, d2)
              | Throw e \<Rightarrow>
                  (case failSyncLog (log_id syncLog) (message e) d2 of
                     (Throw e', d3) \<Rightarrow> Some (Throw e', reqs, d3)
                   | (Return _, d3) \<Rightarrow> Some (Throw e, reqs, d3))))"

definition syncProducts ::
  "product_node graphql \<Rightarrow> nat \<Rightarrow> db \<Rightarrow> (unit outcome \<times> string option list \<times> db) option" where
  "syncProducts admin shopId d = sync_entity ''products'' (syncProductEdges shopId) admin shopId d"

text \<open>A record whose identifiers, and those of its variants and images, convert.\<close>

fun returns :: "'a outcome \<Rightarrow> bool" where
  "returns (Return _) = True"
| "returns (Throw _) = False"

definition well_formed_product :: "product_node \<Rightarrow> bool" where
  "well_formed_product p \<longleftrightarrow>
     returns (remote_id ''gid://shopify/Product/'' (pn_id p))
     \<and> list_all (\<lambda>v. returns (remote_id ''gid://shopify/ProductVariant/'' (vn_id v))) (pn_variants p)
     \<and> list_all (\<lambda>i. returns (remote_id ''gid://shopify/ProductImage/'' (in_id i))) (pn_images p)"

section \<open>Collection sync\<close>

text \<open>A collection of the remote; \<open>cn_products\<close> holds the ids of its member products.\<close>

record collection_node =
  cn_id :: string
  cn_handle :: string
  cn_title :: string
  cn_products :: "string list"

definition upsert_collection :: "nat \<Rightarrow> int \<Rightarrow> collection_node \<Rightarrow> db \<Rightarrow> collection_row \<times> db" where
  "upsert_collection shopId collectionId collectionData d =
     (let (row, rows) =
        upsert (\<lambda>r. collection_collectionId r = collectionId)
          (\<lambda>r. r\<lparr> collection_handle := cn_handle collectionData,
                   collection_title := cn_title collectionData,
                   collection_updatedAt := Now (clock d) \<rparr>)
          \<lparr> collection_id = fresh_id (map collection_id (collections d)),
            collection_collectionId = collectionId,
            collection_shopId = shopId,
            collection_handle = cn_handle collectionData,
            collection_title = cn_title collectionData,
            collection_createdAt = Now (clock d),
            collection_updatedAt = Now (clock d) \<rparr>
          (collections d)
      in (row, d\<lparr> collections := rows \<rparr>))"

text \<open>\<open>db.collectionProduct.deleteMany({where: {collectionId}})\<close>.\<close>

definition collectionProduct_deleteMany :: "nat \<Rightarrow> db \<Rightarrow> db" where
  "collectionProduct_deleteMany collectionLocalId d =
     d\<lparr> collectionProducts := filter (\<lambda>l. cp_collectionId l \<noteq> collectionLocalId) (collectionProducts d) \<rparr>"

text \<open>
  \<open>db.collectionProduct.create\<close>: the primary key of the table is the pair of its two
  columns, so creating a pair that is present throws.
\<close>

definition collectionProduct_create :: "nat \<Rightarrow> nat \<Rightarrow> db \<Rightarrow> unit outcome \<times> db" where
  "collectionProduct_create collectionLocalId productLocalId d =
     (let row = \<lparr> cp_collectionId = collectionLocalId, cp_productId = productLocalId \<rparr> in
      if row \<in> set (collectionProducts d)
      then (Throw (PrismaError ''Unique constraint failed on the fields: (collectionId,productId)''), d)
      else (Return (), d\<lparr> collectionProducts := collectionProducts d @ [row] \<rparr>))"

text \<open>\<open>db.product.findUnique({where: {productId}})\<close>.\<close>

definition product_findUnique :: "int \<Rightarrow> db \<Rightarrow> product_row option" where
  "product_findUnique productShopifyId d =
     find (\<lambda>r. product_productId r = productShopifyId) (products d)"

fun syncCollectionProducts :: "nat \<Rightarrow> string list \<Rightarrow> db \<Rightarrow> unit outcome \<times> db" where
  "syncCollectionProducts collectionLocalId [] d = (Return (), d)"
| "syncCollectionProducts collectionLocalId (gid # rest) d =
     (case remote_id ''gid://shopify/Product/'' gid of
        Throw e \<Rightarrow> (Throw e, d)
      | Return productShopifyId \<Rightarrow>
          (case product_findUnique productShopifyId d of
             None \<Rightarrow> syncCollectionProducts collectionLocalId rest d
           | Some product \<Rightarrow>
               (case collectionProduct_create collectionLocalId (product_id product) d of
                  (Throw e, d1) \<Rightarrow> (Throw e, d1)
                | (Return _, d1) \<Rightarrow> syncCollectionProducts collectionLocalId rest d1)))"

definition syncSingleCollection :: "nat \<Rightarrow> collection_node \<Rightarrow> db \<Rightarrow> unit outcome \<times> db" where
  "syncSingleCollection shopId collectionData d =
     (case remote_id ''gid://shopify/Collection/'' (cn_id collectionData) of
        Throw e \<Rightarrow> (Throw e, d)
      | Return collectionId \<Rightarrow>
          (let (collection, d1) = upsert_collection shopId collectionId collectionData d;
               d2 = collectionProduct_deleteMany (collection_id collection) d1
           in syncCollectionProducts (collection_id collection) (cn_products collectionData) d2))"

fun syncCollectionEdges :: "nat \<Rightarrow> collection_node list \<Rightarrow> nat \<Rightarrow> db \<Rightarrow> nat outcome \<times> db" where
  "syncCollectionEdges shopId [] totalCollections d = (Return totalCollections, d)"
| "syncCollectionEdges shopId (collection # rest) totalCollections d =
     (case syncSingleCollection shopId collection d of
        (Throw e, d1) \<Rightarrow> (Throw e, d1)
      | (Return _, d1) \<Rightarrow> syncCollectionEdges shopId rest (Suc totalCollections) d1)"

definition syncCollections ::
  "collection_node graphql \<Rightarrow> nat \<Rightarrow> db \<Rightarrow> (unit outcome \<times> string option list \<times> db) option" where
  "syncCollections admin shopId d =
     sync_entity ''collections'' (syncCollectionEdges shopId) admin shopId d"




section \<open>Customer sync\<close>

record customer_address_node =
  can_id :: string
  can_fields :: postal_fields

record customer_node =
  cu_id :: string
  cu_firstName :: string
  cu_lastName :: string
  cu_email :: string
  cu_phone :: string
  cu_createdAt :: string
  cu_updatedAt :: string
  cu_addresses :: "customer_address_node list"

definition upsert_customer :: "nat \<Rightarrow> int \<Rightarrow> customer_node \<Rightarrow> db \<Rightarrow> customer_row \<times> db" where
  "upsert_customer shopId customerId customerData d =
     (let (row, rows) =
        upsert (\<lambda>r. customer_customerId r = customerId)
          (\<lambda>r. r\<lparr> customer_firstName := cu_firstName customerData,
                   customer_lastName := cu_lastName customerData,
                   customer_email := cu_email customerData,
                   customer_phone := cu_phone customerData,
                   customer_totalSpent := None,
                   customer_ordersCount := None,
                   customer_updatedAt := DateOf (cu_updatedAt customerData) \<rparr>)
          \<lparr> customer_id = fresh_id (map customer_id (customers d)),
            customer_customerId = customerId,
            customer_shopId = shopId,
            customer_firstName = cu_firstName customerData,
            customer_lastName = cu_lastName customerData,
            customer_email = cu_email customerData,
            customer_phone = cu_phone customerData,
            customer_totalSpent = None,
            customer_ordersCount = None,
            customer_createdAt = DateOf (cu_createdAt customerData),
            customer_updatedAt = DateOf (cu_updatedAt customerData) \<rparr>
          (customers d)
      in (row, d\<lparr> customers := rows \<rparr>))"

definition upsert_customerAddress ::
  "nat \<Rightarrow> int \<Rightarrow> customer_address_node \<Rightarrow> db \<Rightarrow> customerAddress_row \<times> db" where
  "upsert_customerAddress customerLocalId addressId address d =
     (let (row, rows) =
        upsert (\<lambda>r. caddr_addressId r = addressId)
          (\<lambda>r. r\<lparr> caddr_fields := can_fields address, caddr_default := False \<rparr>)
          \<lparr> caddr_id = fresh_id (map caddr_id (customerAddresses d)),
            caddr_addressId = addressId,
            caddr_customerId = customerLocalId,
            caddr_fields = can_fields address,
            caddr_default = False \<rparr>
          (customerAddresses d)
      in (row, d\<lparr> customerAddresses := rows \<rparr>))"

fun syncAddresses :: "nat \<Rightarrow> customer_address_node list \<Rightarrow> db \<Rightarrow> unit outcome \<times> db" where
  "syncAddresses customerLocalId [] d = (Return (), d)"
| "syncAddresses customerLocalId (address # rest) d =
     (case remote_id ''gid://shopify/MailingAddress/'' (can_id address) of
        Throw e \<Rightarrow> (Throw e, d)
      | Return addressId \<Rightarrow>
          syncAddresses customerLocalId rest
            (snd (upsert_customerAddress customerLocalId addressId address d)))"

definition syncSingleCustomer :: "nat \<Rightarrow> customer_node \<Rightarrow> db \<Rightarrow> unit outcome \<times> db" where
  "syncSingleCustomer shopId customerData d =
     (case remote_id ''gid://shopify/Customer/'' (cu_id customerData) of
        Throw e \<Rightarrow> (Throw e, d)
      | Return customerId \<Rightarrow>
          (let (customer, d1) = upsert_customer shopId customerId customerData d in
           syncAddresses (customer_id customer) (cu_addresses customerData) d1))"

section \<open>Order sync\<close>

record lineItem_node =
  li_quantity :: int
  li_amount :: string
  li_variant :: "string option"
  li_product :: "string option"

text \<open>
  An order of the remote. \<open>on_orderNumber\<close> is \<open>None\<close> when the object has no such
  property; \<open>on_customer\<close>, and \<open>li_variant\<close> and \<open>li_product\<close> of a line item, hold the id of
  the object referred to when there is one; \<open>on_totalPrice\<close> holds the amount when
  \<open>totalPriceSet?.shopMoney\<close> is there.
\<close>

record order_node =
  on_id :: string
  on_orderNumber :: "int option"
  on_email :: "string js"
  on_financialStatus :: "string js"
  on_fulfillmentStatus :: "string js"
  on_totalPrice :: "string option"
  on_currencyCode :: "string js"
  on_createdAt :: string
  on_updatedAt :: string
  on_customer :: "string option"
  on_lineItems :: "lineItem_node list"
  on_shippingAddress :: "mailing_address option"
  on_billingAddress :: "mailing_address option"

text \<open>\<open>Number.prototype.toString\<close> on an integer: its decimal digits, after a minus sign if negative.\<close>

fun nat_toString :: "nat \<Rightarrow> string" where
  "nat_toString n =
     (if n < 10 then [''0123456789'' ! n]
      else nat_toString (n div 10) @ [''0123456789'' ! (n mod 10)])"

definition toString :: "int \<Rightarrow> string" where
  "toString i = (if i < 0 then CHR ''-'' # nat_toString (nat (- i)) else nat_toString (nat i))"

text \<open>\<open>db.customer.findUnique\<close> and \<open>db.productVariant.findUnique\<close> by remote id.\<close>

definition customer_findUnique :: "int \<Rightarrow> db \<Rightarrow> customer_row option" where
  "customer_findUnique customerShopifyId d =
     find (\<lambda>r. customer_customerId r = customerShopifyId) (customers d)"

definition productVariant_findUnique :: "int \<Rightarrow> db \<Rightarrow> variant_row option" where
  "productVariant_findUnique variantShopifyId d =
     find (\<lambda>r. variant_variantId r = variantShopifyId) (productVariants d)"

text \<open>
  The order upsert. The order number has a unique index of its own, so the write throws
  when another order holds the number. \<open>customerId\<close> is \<open>undefined\<close> when the order has a
  customer that has no local row, and \<open>null\<close> when it has no customer.
\<close>

definition upsert_order ::
  "nat \<Rightarrow> int \<Rightarrow> string \<Rightarrow> nat js \<Rightarrow> order_node \<Rightarrow> db \<Rightarrow> order_row outcome \<times> db" where
  "upsert_order shopId orderId orderNumber customerId orderData d =
     (if \<exists>r \<in> set (orders d). order_orderNumber r = orderNumber \<and> order_orderId r \<noteq> orderId
      then (Throw (PrismaError ''Unique constraint failed on the fields: (orderNumber)''), d)
      else
        (let (row, rows) =
           upsert (\<lambda>r. order_orderId r = orderId)
             (\<lambda>r. r\<lparr> order_orderNumber := orderNumber,
                      order_email := set_field (on_email orderData) (order_email r),
                      order_financialStatus :=
                        set_field (on_financialStatus orderData) (order_financialStatus r),
                      order_fulfillmentStatus :=
                        set_field (on_fulfillmentStatus orderData) (order_fulfillmentStatus r),
                      order_totalPrice := map_option ParseFloat (on_totalPrice orderData),
                      order_currency := set_field (on_currencyCode orderData) (order_currency r),
                      order_customerId := set_field customerId (order_customerId r),
                      order_updatedAt := DateOf (on_updatedAt orderData) \<rparr>)
             \<lparr> order_id = fresh_id (map order_id (orders d)),
               order_orderId = orderId,
               order_shopId = shopId,
               order_orderNumber = orderNumber,
               order_email = set_field (on_email orderData) None,
               order_financialStatus = set_field (on_financialStatus orderData) None,
               order_fulfillmentStatus = set_field (on_fulfillmentStatus orderData) None,
               order_totalPrice = map_option ParseFloat (on_totalPrice orderData),
               order_currency = set_field (on_currencyCode orderData) None,
               order_customerId = set_field customerId None,
               order_createdAt = DateOf (on_createdAt orderData),
               order_updatedAt = DateOf (on_updatedAt orderData) \<rparr>
             (orders d)
         in (Return row, d\<lparr> orders := rows \<rparr>)))"

text \<open>
  The reference of a line item to a variant or a product: the local id of the row with
  the remote id, and nothing when the line item has no such reference or the row is not
  there. The conversion of the id can throw.
\<close>

definition resolve :: "string \<Rightarrow> string option \<Rightarrow> (int \<Rightarrow> nat option) \<Rightarrow> nat option outcome" where
  "resolve pre ref lookup =
     (case ref of
        None \<Rightarrow> Return None
      | Some gid \<Rightarrow>
          (case remote_id pre gid of
             Throw e \<Rightarrow> Throw e
           | Return i \<Rightarrow> Return (lookup i)))"

text \<open>\<open>db.orderItem.create\<close>: always a new row, with the next primary key.\<close>

definition orderItem_create :: "nat \<Rightarrow> nat option \<Rightarrow> nat option \<Rightarrow> lineItem_node \<Rightarrow> db \<Rightarrow> db" where
  "orderItem_create orderLocalId productVariantId productId lineItem d =
     d\<lparr> orderItems := orderItems d @
         [\<lparr> item_id = fresh_id (map item_id (orderItems d)),
            item_orderId = orderLocalId,
            item_productVariantId = productVariantId,
            item_productId = productId,
            item_quantity = li_quantity lineItem,
            item_price = ParseFloat (li_amount lineItem) \<rparr>] \<rparr>"

fun syncLineItems :: "nat \<Rightarrow> lineItem_node list \<Rightarrow> db \<Rightarrow> unit outcome \<times> db" where
  "syncLineItems orderLocalId [] d = (Return (), d)"
| "syncLineItems orderLocalId (lineItem # rest) d =
     (case resolve ''gid://shopify/ProductVariant/'' (li_variant lineItem)
             (\<lambda>i. map_option variant_id (productVariant_findUnique i d)) of
        Throw e \<Rightarrow> (Throw e, d)
      | Return productVariantId \<Rightarrow>
          (case resolve ''gid://shopify/Product/'' (li_product lineItem)
                  (\<lambda>i. map_option product_id (product_findUnique i d)) of
             Throw e \<Rightarrow> (Throw e, d)
           | Return productId \<Rightarrow>
               syncLineItems orderLocalId rest
                 (orderItem_create orderLocalId productVariantId productId lineItem d)))"

text \<open>The upsert of the shipping or billing address of an order, keyed by the local order id.\<close>

definition upsert_orderAddress ::
  "nat \<Rightarrow> mailing_address \<Rightarrow> orderAddress_row list \<Rightarrow> orderAddress_row list" where
  "upsert_orderAddress orderLocalId address rows =
     snd (upsert (\<lambda>r. oaddr_orderId r = orderLocalId)
            (\<lambda>r. r\<lparr> oaddr_fields := address \<rparr>)
            \<lparr> oaddr_orderId = orderLocalId, oaddr_fields = address \<rparr>
            rows)"

text \<open>
  "Find customer if exists": \<open>null\<close> for an order without a customer, the local id of the
  customer when it has a row, and \<open>undefined\<close>, from \<open>customer?.id\<close>, when it has none.
\<close>

definition find_customer :: "order_node \<Rightarrow> db \<Rightarrow> nat js outcome" where
  "find_customer orderData d =
     (case on_customer orderData of
        None \<Rightarrow> Return Null
      | Some gid \<Rightarrow>
          (case remote_id ''gid://shopify/Customer/'' gid of
             Throw e \<Rightarrow> Throw e
           | Return customerShopifyId \<Rightarrow>
               Return (case customer_findUnique customerShopifyId d of
                         None \<Rightarrow> Undefined
                       | Some customer \<Rightarrow> Value (customer_id customer))))"

text \<open>The two address upserts that end \<open>syncSingleOrder\<close>, each under its \<open>if\<close>.\<close>

definition syncOrderAddresses :: "nat \<Rightarrow> order_node \<Rightarrow> db \<Rightarrow> db" where
  "syncOrderAddresses orderLocalId orderData d =
     (let d1 = (case on_shippingAddress orderData of
                  None \<Rightarrow> d
                | Some a \<Rightarrow>
                    d\<lparr> shippingAddresses :=
                         upsert_orderAddress orderLocalId a (shippingAddresses d) \<rparr>)
      in case on_billingAddress orderData of
           None \<Rightarrow> d1
         | Some a \<Rightarrow>
             d1\<lparr> billingAddresses :=
                   upsert_orderAddress orderLocalId a (billingAddresses d1) \<rparr>)"

definition syncSingleOrder :: "nat \<Rightarrow> order_node \<Rightarrow> db \<Rightarrow> unit outcome \<times> db" where
  "syncSingleOrder shopId orderData d =
     (case remote_id ''gid://shopify/Order/'' (on_id orderData) of
        Throw e \<Rightarrow> (Throw e, d)
      | Return orderId \<Rightarrow>
          (case find_customer orderData d of
             Throw e \<Rightarrow> (Throw e, d)
           | Return customerId \<Rightarrow>
               (case on_orderNumber orderData of
                  None \<Rightarrow>
                    (Throw (TypeError ''Cannot read properties of undefined (reading 'toString')''), d)
                | Some orderNumber \<Rightarrow>
                    (case upsert_order shopId orderId (toString orderNumber) customerId orderData d of
                       (Throw e, d1) \<Rightarrow> (Throw e, d1)
                     | (Return order, d1) \<Rightarrow>
                         (case syncLineItems (order_id order) (on_lineItems orderData) d1 of
                            (Throw e, d2) \<Rightarrow> (Throw e, d2)
                          | (Return _, d2) \<Rightarrow>
                              (Return (), syncOrderAddresses (order_id order) orderData d2))))))"

text \<open>
  What a created line item holds besides its primary key, and what the line items of an
  order hold when they are created against a store.
\<close>

definition item_data :: "orderItem_row \<Rightarrow> nat \<times> nat option \<times> nat option \<times> int \<times> js_number" where
  "item_data x =
     (item_orderId x, item_productVariantId x, item_productId x, item_quantity x, item_price x)"

definition line_data ::
  "nat \<Rightarrow> lineItem_node list \<Rightarrow> db \<Rightarrow> (nat \<times> nat option \<times> nat option \<times> int \<times> js_number) list" where
  "line_data oid items d =
     map (\<lambda>li. (oid,
                 (case li_variant li of None \<Rightarrow> None
                  | Some gid \<Rightarrow>
                      (case remote_id ''gid://shopify/ProductVariant/'' gid of
                         Throw e \<Rightarrow> None
                       | Return i \<Rightarrow> map_option variant_id (productVariant_findUnique i d))),
                 (case li_product li of None \<Rightarrow> None
                  | Some gid \<Rightarrow>
                      (case remote_id ''gid://shopify/Product/'' gid of
                         Throw e \<Rightarrow> None
                       | Return i \<Rightarrow> map_option product_id (product_findUnique i d))),
                 li_quantity li, ParseFloat (li_amount li)))
       items"

definition lineItem_ok :: "lineItem_node \<Rightarrow> bool" where
  "lineItem_ok li \<longleftrightarrow>
     (case li_variant li of None \<Rightarrow> True
      | Some gid \<Rightarrow> returns (remote_id ''gid://shopify/ProductVariant/'' gid))
     \<and> (case li_product li of None \<Rightarrow> True
      | Some gid \<Rightarrow> returns (remote_id ''gid://shopify/Product/'' gid))"

text \<open>The store at another time.\<close>

definition later :: "nat \<Rightarrow> db \<Rightarrow> db" where
  "later t d = d\<lparr> clock := t \<rparr>"

section \<open>The fields an upsert writes\<close>

text \<open>
  For each entity, that a row holds the remote key and the values of a remote record in
  the columns that both the create and the update branch of its upsert write.
\<close>

definition product_holds :: "product_row \<Rightarrow> int \<Rightarrow> product_node \<Rightarrow> bool" where
  "product_holds r i p \<longleftrightarrow>
     product_productId r = i \<and> product_title r = pn_title p \<and> product_handle r = pn_handle p
     \<and> product_vendor r = pn_vendor p \<and> product_status r = toLowerCase (pn_status p)
     \<and> product_updatedAt r = DateOf (pn_updatedAt p)"

definition variant_holds :: "variant_row \<Rightarrow> int \<Rightarrow> variant_node \<Rightarrow> bool" where
  "variant_holds r i v \<longleftrightarrow>
     variant_variantId r = i \<and> variant_title r = vn_title v
     \<and> variant_price r = ParseFloat (vn_price v) \<and> variant_sku r = vn_sku v
     \<and> variant_inventoryQuantity r = vn_inventoryQuantity v
     \<and> variant_updatedAt r = DateOf (vn_updatedAt v)"

definition image_holds :: "image_row \<Rightarrow> int \<Rightarrow> image_node \<Rightarrow> bool" where
  "image_holds r i im \<longleftrightarrow>
     image_imageId r = i \<and> image_alt r = in_altText im \<and> image_width r = in_width im
     \<and> image_height r = in_height im \<and> image_src r = in_url im"

definition customer_holds :: "customer_row \<Rightarrow> int \<Rightarrow> customer_node \<Rightarrow> bool" where
  "customer_holds r i c \<longleftrightarrow>
     customer_customerId r = i \<and> customer_firstName r = cu_firstName c
     \<and> customer_lastName r = cu_lastName c \<and> customer_email r = cu_email c
     \<and> customer_phone r = cu_phone c \<and> customer_totalSpent r = None
     \<and> customer_ordersCount r = None \<and> customer_updatedAt r = DateOf (cu_updatedAt c)"

definition customerAddress_holds :: "customerAddress_row \<Rightarrow> int \<Rightarrow> customer_address_node \<Rightarrow> bool" where
  "customerAddress_holds r i a \<longleftrightarrow>
     caddr_addressId r = i \<and> caddr_fields r = can_fields a \<and> caddr_default r = False"

definition order_holds :: "order_row \<Rightarrow> int \<Rightarrow> string \<Rightarrow> nat js \<Rightarrow> order_node \<Rightarrow> bool" where
  "order_holds r i orderNumber customerId od \<longleftrightarrow>
     order_orderId r = i \<and> order_orderNumber r = orderNumber
     \<and> order_email r = set_field (on_email od) (order_email r)
     \<and> order_financialStatus r = set_field (on_financialStatus od) (order_financialStatus r)
     \<and> order_fulfillmentStatus r = set_field (on_fulfillmentStatus od) (order_fulfillmentStatus r)
     \<and> order_totalPrice r = map_option ParseFloat (on_totalPrice od)
     \<and> order_currency r = set_field (on_currencyCode od) (order_currency r)
     \<and> order_customerId r = set_field customerId (order_customerId r)
     \<and> order_updatedAt r = DateOf (on_updatedAt od)"

definition collection_holds :: "collection_row \<Rightarrow> int \<Rightarrow> collection_node \<Rightarrow> bool" where
  "collection_holds r i c \<longleftrightarrow>
     collection_collectionId r = i \<and> collection_handle r = cn_handle c
     \<and> collection_title r = cn_title c"

section \<open>Orchestration\<close>

text \<open>The fields of the remote shop that the sync reads.\<close>

record shop_node =
  sn_id :: string
  sn_name :: string
  sn_email :: string
  sn_currencyCode :: string

definition upsert_shop :: "string \<Rightarrow> int \<Rightarrow> shop_node \<Rightarrow> db \<Rightarrow> shop_row \<times> db" where
  "upsert_shop shopDomain shopifyId shop d =
     (let (row, rows) =
        upsert (\<lambda>r. shop_domain r = shopDomain)
          (\<lambda>r. r\<lparr> shop_shopifyId := shopifyId,
                   shop_name := sn_name shop,
                   shop_email := sn_email shop,
                   shop_currency := sn_currencyCode shop,
                   shop_updatedAt := Some (Now (clock d)) \<rparr>)
          \<lparr> shop_id = fresh_id (map shop_id (shops d)),
            shop_shopifyId = shopifyId,
            shop_name = sn_name shop,
            shop_domain = shopDomain,
            shop_email = sn_email shop,
            shop_currency = sn_currencyCode shop,
            shop_updatedAt = None,
            shop_lastSyncAt = None \<rparr>
          (shops d)
      in (row, d\<lparr> shops := rows \<rparr>))"

text \<open>
  \<open>syncShopData\<close>. \<open>shopQuery\<close> is what the shop query gives: the shop, or the error thrown
  by the request or by reading the response. The value returned is the one assigned to
  \<open>this.shopId\<close>, which every later step reads.
\<close>

definition syncShopData :: "string \<Rightarrow> shop_node outcome \<Rightarrow> db \<Rightarrow> nat outcome \<times> db" where
  "syncShopData shopDomain shopQuery d =
     (case shopQuery of
        Throw e \<Rightarrow> (Throw e, d)
      | Return shop \<Rightarrow>
          (case remote_id ''gid://shopify/Shop/'' (sn_id shop) of
             Throw e \<Rightarrow> (Throw e, d)
           | Return shopifyId \<Rightarrow>
               (let (dbShop, d1) = upsert_shop shopDomain shopifyId shop d;
                    (syncLog, d2) = createSyncLog (shop_id dbShop) ''shop'' ''initial'' d1
                in case completeSyncLog (log_id syncLog) 1 1 d2 of
                     (Throw e, d3) \<Rightarrow> (Throw e, d3)
                   | (Return _, d3) \<Rightarrow> (Return (shop_id dbShop), d3))))"

subsection \<open>Tasks\<close>

text \<open>
  The entity syncs that \<open>syncAllData\<close> starts together run as tasks of the event loop: a
  task runs until it awaits a database operation or a request, and another task may run
  before it goes on. An async function, as far as it has run, has returned or thrown, or
  it is suspended at a database operation: \<open>Await effect rest\<close>, where the operation turns
  the store \<open>d\<close> it finds into \<open>effect d\<close> and the function goes on as \<open>rest d\<close>, with the
  result of the operation on \<open>d\<close>. An operation takes effect at once.
\<close>

datatype 'a task = Done "'a outcome" | Await "db \<Rightarrow> db" "db \<Rightarrow> 'a task"

text \<open>A task followed by the code that uses its value; a throw of the task ends both.\<close>

primrec andThen :: "'a task \<Rightarrow> ('a \<Rightarrow> 'b task) \<Rightarrow> 'b task" where
  "andThen (Done r) k = (case r of Return x \<Rightarrow> k x | Throw e \<Rightarrow> Done (Throw e))"
| "andThen (Await effect rest) k = Await effect (\<lambda>d. andThen (rest d) k)"

text \<open>The \<open>await\<close> of one database operation, and an operation that cannot throw.\<close>

definition await :: "(db \<Rightarrow> 'a outcome \<times> db) \<Rightarrow> 'a task" where
  "await operation = Await (\<lambda>d. snd (operation d)) (\<lambda>d. Done (fst (operation d)))"

definition returning :: "(db \<Rightarrow> 'a \<times> db) \<Rightarrow> db \<Rightarrow> 'a outcome \<times> db" where
  "returning operation d = (case operation d of (x, d') \<Rightarrow> (Return x, d'))"

text \<open>A task run to its end with no step of another task between its operations.\<close>

primrec run :: "'a task \<Rightarrow> db \<Rightarrow> 'a outcome \<times> db" where
  "run (Done r) d = (r, d)"
| "run (Await effect rest) d = run (rest d) (effect d)"

text \<open>
  \<open>syncSingleProduct\<close> and \<open>syncSingleCollection\<close> with their loops, as tasks: the code of
  the functions above, suspended at each \<open>await\<close>. \<open>db.product.findUnique\<close> is an
  operation of its own that leaves the store as it is, so the product may be stored by
  the other task before or after it.
\<close>

fun syncVariants_async :: "nat \<Rightarrow> variant_node list \<Rightarrow> unit task" where
  "syncVariants_async productLocalId [] = Done (Return ())"
| "syncVariants_async productLocalId (variant # rest) =
     (case remote_id ''gid://shopify/ProductVariant/'' (vn_id variant) of
        Throw e \<Rightarrow> Done (Throw e)
      | Return variantId \<Rightarrow>
          andThen (await (returning (upsert_variant productLocalId variantId variant)))
            (\<lambda>_. syncVariants_async productLocalId rest))"

fun syncImages_async :: "nat \<Rightarrow> image_node list \<Rightarrow> unit task" where
  "syncImages_async productLocalId [] = Done (Return ())"
| "syncImages_async productLocalId (img # rest) =
     (case remote_id ''gid://shopify/ProductImage/'' (in_id img) of
        Throw e \<Rightarrow> Done (Throw e)
      | Return imageId \<Rightarrow>
          andThen (await (returning (upsert_image productLocalId imageId img)))
            (\<lambda>_. syncImages_async productLocalId rest))"

definition syncSingleProduct_async :: "nat \<Rightarrow> product_node \<Rightarrow> unit task" where
  "syncSingleProduct_async shopId productData =
     (case remote_id ''gid://shopify/Product/'' (pn_id productData) of
        Throw e \<Rightarrow> Done (Throw e)
      | Return productId \<Rightarrow>
          andThen (await (returning (upsert_product shopId productId productData)))
            (\<lambda>product.
               andThen (syncVariants_async (product_id product) (pn_variants productData))
                 (\<lambda>_. syncImages_async (product_id product) (pn_images productData))))"

fun syncProductEdges_async :: "nat \<Rightarrow> product_node list \<Rightarrow> nat \<Rightarrow> nat task" where
  "syncProductEdges_async shopId [] totalProducts = Done (Return totalProducts)"
| "syncProductEdges_async shopId (product # rest) totalProducts =
     andThen (syncSingleProduct_async shopId product)
       (\<lambda>_. syncProductEdges_async shopId rest (Suc totalProducts))"

fun syncCollectionProducts_async :: "nat \<Rightarrow> string list \<Rightarrow> unit task" where
  "syncCollectionProducts_async collectionLocalId [] = Done (Return ())"
| "syncCollectionProducts_async collectionLocalId (gid # rest) =
     (case remote_id ''gid://shopify/Product/'' gid of
        Throw e \<Rightarrow> Done (Throw e)
      | Return productShopifyId \<Rightarrow>
          andThen (await (\<lambda>d. (Return (product_findUnique productShopifyId d), d)))
            (\<lambda>found.
               case found of
                 None \<Rightarrow> syncCollectionProducts_async collectionLocalId rest
               | Some product \<Rightarrow>
                   andThen (await (collectionProduct_create collectionLocalId (product_id product)))
                     (\<lambda>_. syncCollectionProducts_async collectionLocalId rest)))"

definition syncSingleCollection_async :: "nat \<Rightarrow> collection_node \<Rightarrow> unit task" where
  "syncSingleCollection_async shopId collectionData =
     (case remote_id ''gid://shopify/Collection/'' (cn_id collectionData) of
        Throw e \<Rightarrow> Done (Throw e)
      | Return collectionId \<Rightarrow>
          andThen (await (returning (upsert_collection shopId collectionId collectionData)))
            (\<lambda>collection.
               andThen (await (\<lambda>d. (Return (), collectionProduct_deleteMany (collection_id collection) d)))
                 (\<lambda>_. syncCollectionProducts_async (collection_id collection)
                         (cn_products collectionData))))"

fun syncCollectionEdges_async :: "nat \<Rightarrow> collection_node list \<Rightarrow> nat \<Rightarrow> nat task" where
  "syncCollectionEdges_async shopId [] totalCollections = Done (Return totalCollections)"
| "syncCollectionEdges_async shopId (collection # rest) totalCollections =
     andThen (syncSingleCollection_async shopId collection)
       (\<lambda>_. syncCollectionEdges_async shopId rest (Suc totalCollections))"

text \<open>
  Where an entity sync stands: before \<open>createSyncLog\<close>; before the request for a page;
  in the \<open>for\<close> loop over the records of a page, with what is left of the loop; before
  \<open>updateSyncLog\<close>; before \<open>completeSyncLog\<close>; in the \<open>catch\<close> block, before
  \<open>failSyncLog\<close>; and settled, with the outcome of its promise. A state holds the local
  variables: \<open>syncLog.id\<close>, the \<open>cursor\<close> variables sent so far, \<open>cursor\<close> and the counter.
\<close>

datatype 'n sync_state =
    AtCreate
  | AtRequest nat "string option list" "string option" nat
  | InPage nat "string option list" "'n page" "nat task"
  | AtUpdate nat "string option list" "string option" nat
  | AtComplete nat "string option list" nat
  | AtFail nat "string option list" error
  | Settled "unit outcome" "string option list"

text \<open>
  One step of the body shared by \<open>syncProducts\<close> and \<open>syncCollections\<close>: the database
  operation the sync is suspended at, the request for a page, or the code between the
  \<open>for\<close> loop and the next \<open>await\<close>. The last two leave the store as it is. A settled sync
  stays as it is.
\<close>

fun sync_step ::
  "string \<Rightarrow> ('n list \<Rightarrow> nat \<Rightarrow> nat task) \<Rightarrow> 'n graphql \<Rightarrow> nat \<Rightarrow> 'n sync_state \<Rightarrow> db
     \<Rightarrow> 'n sync_state \<times> db" where
  "sync_step entityType syncEdges admin shopId AtCreate d =
     (let (syncLog, d0) = createSyncLog shopId entityType ''initial'' d
      in (AtRequest (log_id syncLog) [] None 0, d0))"
| "sync_step entityType syncEdges admin shopId (AtRequest syncLogId reqs cur totalRecords) d =
     (let variables = (if truthy cur then cur else None) in
      case admin (length reqs) variables of
        Throw e \<Rightarrow> (AtFail syncLogId (reqs @ [variables]) e, d)
      | Return pageData \<Rightarrow>
          (InPage syncLogId (reqs @ [variables]) pageData
             (syncEdges (edges pageData) totalRecords), d))"
| "sync_step entityType syncEdges admin shopId (InPage syncLogId reqs pageData (Await effect rest)) d =
     (InPage syncLogId reqs pageData (rest d), effect d)"
| "sync_step entityType syncEdges admin shopId (InPage syncLogId reqs pageData (Done (Throw e))) d =
     (AtFail syncLogId reqs e, d)"
| "sync_step entityType syncEdges admin shopId (InPage syncLogId reqs pageData (Done (Return n))) d =
     (AtUpdate syncLogId reqs (if hasNextPage pageData then endCursor pageData else None) n, d)"
| "sync_step entityType syncEdges admin shopId (AtUpdate syncLogId reqs cur n) d =
     (case updateSyncLog syncLogId n d of
        (Throw e, d2) \<Rightarrow> (AtFail syncLogId reqs e, d2)
      | (Return _, d2) \<Rightarrow>
          (if truthy cur then AtRequest syncLogId reqs cur n else AtComplete syncLogId reqs n, d2))"
| "sync_step entityType syncEdges admin shopId (AtComplete syncLogId reqs n) d =
     (case completeSyncLog syncLogId n n d of
        (Throw e, d2) \<Rightarrow> (AtFail syncLogId reqs e, d2)
      | (Return _, d2) \<Rightarrow> (Settled (Return ()) reqs, d2))"
| "sync_step entityType syncEdges admin shopId (AtFail syncLogId reqs e) d =
     (case failSyncLog syncLogId (message e) d of
        (Throw e', d3) \<Rightarrow> (Settled (Throw e') reqs, d3)
      | (Return _, d3) \<Rightarrow> (Settled (Throw e) reqs, d3))"
| "sync_step entityType syncEdges admin shopId (Settled r reqs) d = (Settled r reqs, d)"

text \<open>The outcome of a settled sync.\<close>

fun settled :: "'n sync_state \<Rightarrow> unit outcome option" where
  "settled (Settled r reqs) = Some r"
| "settled _ = None"

fun is_settled :: "'n sync_state \<Rightarrow> bool" where
  "is_settled (Settled r reqs) = True"
| "is_settled _ = False"

text \<open>
  Two tasks on the event loop. The schedule says whose step is next, \<open>True\<close> for the
  first task; which schedule a run follows depends on how long the operations take, so a
  statement about the program is one about every schedule.
\<close>

fun interleave ::
  "bool list \<Rightarrow> ('p \<Rightarrow> db \<Rightarrow> 'p \<times> db) \<Rightarrow> ('c \<Rightarrow> db \<Rightarrow> 'c \<times> db) \<Rightarrow> 'p \<Rightarrow> 'c \<Rightarrow> db \<Rightarrow> 'p \<times> 'c \<times> db" where
  "interleave [] stepP stepC p c d = (p, c, d)"
| "interleave (True # schedule) stepP stepC p c d =
     (let (p', d') = stepP p d in interleave schedule stepP stepC p' c d')"
| "interleave (False # schedule) stepP stepC p c d =
     (let (c', d') = stepC c d in interleave schedule stepP stepC p c' d')"

text \<open>A number of steps of one task with no step of another task in between.\<close>

definition alone :: "('s \<Rightarrow> db \<Rightarrow> 's \<times> db) \<Rightarrow> nat \<Rightarrow> 's \<times> db \<Rightarrow> 's \<times> db" where
  "alone step n = (\<lambda>(s, d). step s d) ^^ n"

text \<open>The steps of \<open>syncProducts\<close> and of \<open>syncCollections\<close>.\<close>

definition syncProducts_step ::
  "product_node graphql \<Rightarrow> nat \<Rightarrow> product_node sync_state \<Rightarrow> db \<Rightarrow> product_node sync_state \<times> db" where
  "syncProducts_step admin shopId = sync_step ''products'' (syncProductEdges_async shopId) admin shopId"

definition syncCollections_step ::
  "collection_node graphql \<Rightarrow> nat \<Rightarrow> collection_node sync_state \<Rightarrow> db
     \<Rightarrow> collection_node sync_state \<times> db" where
  "syncCollections_step admin shopId =
     sync_step ''collections'' (syncCollectionEdges_async shopId) admin shopId"

text \<open>
  \<open>Promise.allSettled\<close> of the two syncs, both started: the steps are taken as the
  schedule says and the group has settled when both syncs have, whatever their outcomes.
  \<open>None\<close>: at the end of the schedule a sync has not settled.
\<close>

definition allSettled ::
  "bool list \<Rightarrow> ('p sync_state \<Rightarrow> db \<Rightarrow> 'p sync_state \<times> db)
     \<Rightarrow> ('c sync_state \<Rightarrow> db \<Rightarrow> 'c sync_state \<times> db) \<Rightarrow> db
     \<Rightarrow> ((unit outcome \<times> unit outcome) \<times> db) option" where
  "allSettled schedule stepP stepC d =
     (case interleave schedule stepP stepC AtCreate AtCreate d of
        (p, c, d') \<Rightarrow>
          (case (settled p, settled c) of
             (Some r1, Some r2) \<Rightarrow> Some ((r1, r2), d')
           | _ \<Rightarrow> None))"

subsection \<open>The run\<close>

text \<open>\<open>db.shop.update({where: {domain}, data: {lastSyncAt: new Date()}})\<close>.\<close>

definition shop_update_lastSyncAt :: "string \<Rightarrow> db \<Rightarrow> unit outcome \<times> db" where
  "shop_update_lastSyncAt shopDomain d =
     (if \<exists>r \<in> set (shops d). shop_domain r = shopDomain
      then (Return (),
            d\<lparr> shops := map (\<lambda>r. if shop_domain r = shopDomain
                                   then r\<lparr> shop_lastSyncAt := Some (Now (clock d)) \<rparr> else r)
                             (shops d) \<rparr>)
      else (Throw (PrismaError ''Record to update not found.''), d))"

text \<open>The object \<open>syncAllData\<close> returns.\<close>

record sync_result =
  success :: bool
  result_message :: "string option"
  result_error :: "string option"

text \<open>
  \<open>syncAllData\<close>, for a schedule of the two entity syncs. \<open>None\<close>: the schedule has ended
  and \<open>Promise.allSettled\<close> has not returned.
\<close>

definition syncAllData ::
  "bool list \<Rightarrow> string \<Rightarrow> shop_node outcome \<Rightarrow> product_node graphql \<Rightarrow> collection_node graphql \<Rightarrow> db
     \<Rightarrow> (sync_result \<times> db) option" where
  "syncAllData schedule shopDomain shopQuery productsAdmin collectionsAdmin d =
     (case syncShopData shopDomain shopQuery d of
        (Throw e, d0) \<Rightarrow>
          Some (\<lparr> success = False, result_message = None, result_error = Some (message e) \<rparr>, d0)
      | (Return shopId, d0) \<Rightarrow>
          (case allSettled schedule (syncProducts_step productsAdmin shopId)
                  (syncCollections_step collectionsAdmin shopId) d0 of
             None \<Rightarrow> None
           | Some (outcomes, d1) \<Rightarrow>
               (case shop_update_lastSyncAt shopDomain d1 of
                  (Throw e, d2) \<Rightarrow>
                    Some (\<lparr> success = False, result_message = None,
                            result_error = Some (message e) \<rparr>, d2)
                | (Return _, d2) \<Rightarrow>
                    Some (\<lparr> success = True,
                            result_message = Some ''Initial sync completed successfully (products, collections, and shop data only)'',
                            result_error = None \<rparr>, d2))))"

text \<open>
  What the statements below say about tasks. A task that leaves the sync log and the shop
  table as they are and whose outcome satisfies \<open>Q\<close>, whatever the store is at each of its
  operations; a task with at most \<open>n\<close> operations; and a sync that settles within \<open>n\<close> of
  its own steps, whatever the store is at each of them.
\<close>

inductive ends :: "('a outcome \<Rightarrow> bool) \<Rightarrow> 'a task \<Rightarrow> bool" for Q where
  ends_Done: "Q r \<Longrightarrow> ends Q (Done r)"
| ends_Await:
    "\<forall>d. syncLogs (effect d) = syncLogs d \<and> shops (effect d) = shops d \<and> ends Q (rest d)
       \<Longrightarrow> ends Q (Await effect rest)"

inductive bounded :: "nat \<Rightarrow> 'a task \<Rightarrow> bool" where
  bounded_Done: "bounded n (Done r)"
| bounded_Await: "\<forall>d. bounded n (rest d) \<Longrightarrow> bounded (Suc n) (Await effect rest)"

inductive within :: "('s \<Rightarrow> db \<Rightarrow> 's \<times> db) \<Rightarrow> ('s \<Rightarrow> bool) \<Rightarrow> nat \<Rightarrow> 's \<Rightarrow> bool"
  for step final where
  within_final: "final s \<Longrightarrow> within step final n s"
| within_step: "\<forall>d. within step final n (fst (step s d)) \<Longrightarrow> within step final (Suc n) s"

text \<open>
  The most operations the records of a page take; a remote that ends the pagination at
  request \<open>N\<close>, by throwing or by answering without a next page; and a number of steps in
  which a sync of at most \<open>N + 1\<close> pages with at most \<open>W\<close> operations each has settled.
\<close>

definition product_awaits :: "product_node list \<Rightarrow> nat" where
  "product_awaits es = sum_list (map (\<lambda>p. 1 + length (pn_variants p) + length (pn_images p)) es)"

definition collection_awaits :: "collection_node list \<Rightarrow> nat" where
  "collection_awaits es = sum_list (map (\<lambda>c. 2 + 2 * length (cn_products c)) es)"

definition last_request :: "'n graphql \<Rightarrow> nat \<Rightarrow> bool" where
  "last_request admin N \<longleftrightarrow>
     (\<forall>c. case admin N c of
            Throw e \<Rightarrow> True
          | Return pageData \<Rightarrow> \<not> (hasNextPage pageData \<and> truthy (endCursor pageData)))"

definition turns :: "nat \<Rightarrow> nat \<Rightarrow> nat" where
  "turns N W = (N + 1) * (W + 3) + 3"

text \<open>A sync whose loop over the records leaves the sync log and the shop table as they are.\<close>

fun tidy :: "'n sync_state \<Rightarrow> bool" where
  "tidy (InPage syncLogId reqs pageData t) = ends (\<lambda>r. True) t"
| "tidy _ = True"

text \<open>
  The log row of a sync while it runs; the number of records in the first \<open>k\<close> pages, and
  the progress counter after \<open>k\<close> pages, which \<open>updateSyncLog\<close> writes once a page.
\<close>

definition started :: "string \<Rightarrow> nat \<Rightarrow> syncLog_row \<Rightarrow> bool" where
  "started entityType syncLogId row \<longleftrightarrow>
     log_id row = syncLogId \<and> log_entityType row = entityType \<and> log_status row = ''started''"

definition counted :: "'n page list \<Rightarrow> nat \<Rightarrow> nat" where
  "counted pgs k = (\<Sum>i<k. length (edges (pgs ! i)))"

definition persisted :: "'n page list \<Rightarrow> nat \<Rightarrow> nat option" where
  "persisted pgs k = (if k = 0 then None else Some (counted pgs k))"

text \<open>
  The log row of a product sync that throws \<open>e\<close> on a record of page \<open>j\<close> of \<open>pgs\<close>
  (counted from 0), and the log row of a collection sync, at each state of the sync;
  and the two together: the sync log is the table \<open>L0\<close> the two syncs found, followed by
  the rows they have created, in the order of creation (\<open>b\<close>: the product sync was first).
\<close>

fun products_row ::
  "product_node page list \<Rightarrow> nat \<Rightarrow> error \<Rightarrow> product_node sync_state \<Rightarrow> syncLog_row list \<Rightarrow> bool" where
  "products_row pgs j e AtCreate rows \<longleftrightarrow> rows = []"
| "products_row pgs j e (AtRequest i reqs cur n) rows \<longleftrightarrow>
     (\<exists>row. rows = [row] \<and> started ''products'' i row \<and> length reqs \<le> j
        \<and> n = counted pgs (length reqs)
        \<and> log_recordsProcessed row = persisted pgs (length reqs))"
| "products_row pgs j e (InPage i reqs pageData t) rows \<longleftrightarrow>
     (\<exists>row k. rows = [row] \<and> started ''products'' i row \<and> length reqs = Suc k \<and> k \<le> j
        \<and> pageData = pgs ! k \<and> log_recordsProcessed row = persisted pgs k
        \<and> ends (\<lambda>r. r = (if k = j then Throw e else Return (counted pgs (Suc k)))) t)"
| "products_row pgs j e (AtUpdate i reqs cur n) rows \<longleftrightarrow>
     (\<exists>row k. rows = [row] \<and> started ''products'' i row \<and> length reqs = Suc k \<and> k < j
        \<and> n = counted pgs (Suc k) \<and> truthy cur
        \<and> log_recordsProcessed row = persisted pgs k)"
| "products_row pgs j e (AtComplete i reqs n) rows \<longleftrightarrow> False"
| "products_row pgs j e (AtFail i reqs e') rows \<longleftrightarrow>
     (\<exists>row. rows = [row] \<and> started ''products'' i row \<and> e' = e
        \<and> log_recordsProcessed row = persisted pgs j)"
| "products_row pgs j e (Settled r reqs) rows \<longleftrightarrow>
     (\<exists>row. rows = [row] \<and> r = Throw e \<and> log_entityType row = ''products''
        \<and> log_status row = ''failed'' \<and> log_errorMessage row = Some (message e)
        \<and> log_recordsProcessed row = persisted pgs j)"

fun collections_row :: "collection_node sync_state \<Rightarrow> syncLog_row list \<Rightarrow> bool" where
  "collections_row AtCreate rows \<longleftrightarrow> rows = []"
| "collections_row (AtRequest i reqs cur n) rows \<longleftrightarrow>
     (\<exists>row. rows = [row] \<and> started ''collections'' i row)"
| "collections_row (InPage i reqs pageData t) rows \<longleftrightarrow>
     (\<exists>row. rows = [row] \<and> started ''collections'' i row \<and> ends (\<lambda>r. True) t)"
| "collections_row (AtUpdate i reqs cur n) rows \<longleftrightarrow>
     (\<exists>row. rows = [row] \<and> started ''collections'' i row)"
| "collections_row (AtComplete i reqs n) rows \<longleftrightarrow>
     (\<exists>row. rows = [row] \<and> started ''collections'' i row)"
| "collections_row (AtFail i reqs e) rows \<longleftrightarrow>
     (\<exists>row. rows = [row] \<and> started ''collections'' i row)"
| "collections_row (Settled r reqs) rows \<longleftrightarrow>
     (\<exists>row. rows = [row] \<and> log_entityType row = ''collections''
        \<and> (r = Return () \<longrightarrow> log_status row = ''completed''))"

definition joint ::
  "product_node page list \<Rightarrow> nat \<Rightarrow> error \<Rightarrow> syncLog_row list \<Rightarrow> bool
     \<Rightarrow> product_node sync_state \<Rightarrow> collection_node sync_state \<Rightarrow> db \<Rightarrow> bool" where
  "joint pgs j e L0 b p c d \<longleftrightarrow>
     (\<exists>prow crow.
        syncLogs d = L0 @ (if b then prow @ crow else crow @ prow)
      \<and> products_row pgs j e p prow \<and> collections_row c crow
      \<and> (\<forall>x \<in> set (L0 @ crow). \<forall>r \<in> set prow. log_id x \<noteq> log_id r)
      \<and> (\<forall>x \<in> set L0. \<forall>r \<in> set crow. log_id x \<noteq> log_id r)
      \<and> (if b then p \<noteq> AtCreate else c \<noteq> AtCreate))"


section \<open>Webhook registration\<close>

text \<open>
  A subscription as the remote lists it. The id is an opaque value of the remote; it is a
  number here. \<open>wh_callbackUrl\<close> is \<open>None\<close> for an endpoint that has no callback URL.
\<close>

record webhook =
  wh_id :: nat
  wh_topic :: string
  wh_callbackUrl :: "string option"

text \<open>
  How the remote answers a mutation: it carries it out, it answers with user errors (at
  least one), or the request throws. What it answers to the deletion of an id and to the
  creation of a topic, and whether the listing of the subscriptions throws, is the
  behaviour of the remote, which the reconciler is run against.
\<close>

datatype response = Accepted | UserErrors string "string list" | Rejected error

record remote_api =
  list_error :: "error option"
  delete_response :: "nat \<Rightarrow> response"
  create_response :: "string \<Rightarrow> response"

text \<open>The mutations sent to the remote, in order.\<close>

datatype call = Delete nat | Create string string

record reg_result =
  rr_topic :: string
  rr_status :: string
  rr_webhook :: "webhook option"
  rr_errors :: "string list option"
  rr_error :: "string option"

text \<open>\<open>String.prototype.includes\<close>.\<close>

fun str_includes :: "string \<Rightarrow> string \<Rightarrow> bool" where
  "str_includes [] sub = (sub = [])"
| "str_includes (c # cs) sub = (prefix sub (c # cs) \<or> str_includes cs sub)"

text \<open>
  \<open>topic.toUpperCase().replace(/\//g, '_')\<close>, on the letters a to z: it is applied to
  the topics of the list below.
\<close>

definition topic_name :: "string \<Rightarrow> string" where
  "topic_name topic =
     map (\<lambda>c. if c = CHR ''/'' then CHR ''_''
                else (case map_of (zip ''abcdefghijklmnopqrstuvwxyz'' ''ABCDEFGHIJKLMNOPQRSTUVWXYZ'') c of
                        Some u \<Rightarrow> u
                      | None \<Rightarrow> c))
       topic"

definition webhookTopics :: "(string \<times> string) list" where
  "webhookTopics =
     [(''products/create'', ''/webhooks/products/create''),
      (''products/update'', ''/webhooks/products/update''),
      (''app/uninstalled'', ''/webhooks/app/uninstalled''),
      (''app/scopes_update'', ''/webhooks/app/scopes_update'')]"

text \<open>The effect of a deletion on the subscriptions of the remote.\<close>

definition remote_delete :: "remote_api \<Rightarrow> nat \<Rightarrow> webhook list \<Rightarrow> webhook list" where
  "remote_delete api i subs =
     (case delete_response api i of
        Accepted \<Rightarrow> filter (\<lambda>w. wh_id w \<noteq> i) subs
      | UserErrors e es \<Rightarrow> subs
      | Rejected err \<Rightarrow> subs)"

text \<open>
  \<open>deleteOldWebhooks\<close>: one deletion per webhook, each in its own \<open>try\<close>; user errors and
  thrown errors are logged and the loop goes on.
\<close>

fun deleteOldWebhooks :: "remote_api \<Rightarrow> webhook list \<Rightarrow> webhook list \<Rightarrow> webhook list \<times> call list" where
  "deleteOldWebhooks api [] subs = (subs, [])"
| "deleteOldWebhooks api (w # ws) subs =
     (let (subs', calls) = deleteOldWebhooks api ws (remote_delete api (wh_id w) subs)
      in (subs', Delete (wh_id w) # calls))"

text \<open>"Does this topic have a webhook with the correct URL", against the listed webhooks.\<close>

definition hasCorrectWebhook :: "webhook list \<Rightarrow> string \<Rightarrow> string \<Rightarrow> bool" where
  "hasCorrectWebhook existingWebhooks appUrl topic \<longleftrightarrow>
     (\<exists>w \<in> set existingWebhooks.
        wh_topic w = topic_name topic
        \<and> (case wh_callbackUrl w of None \<Rightarrow> False | Some u \<Rightarrow> str_includes u appUrl))"

text \<open>"Points to old URL": a callback URL that is there, not empty, and does not include the app URL.\<close>

definition pointsToOldUrl :: "string \<Rightarrow> webhook \<Rightarrow> bool" where
  "pointsToOldUrl appUrl w \<longleftrightarrow>
     (case wh_callbackUrl w of None \<Rightarrow> False | Some u \<Rightarrow> u \<noteq> [] \<and> \<not> str_includes u appUrl)"

text \<open>
  The loop that creates the webhooks: one creation per topic, each in its own \<open>try\<close>.
  An accepted creation adds the subscription to the remote, under a new id.
\<close>

fun createWebhooks ::
  "remote_api \<Rightarrow> string \<Rightarrow> (string \<times> string) list \<Rightarrow> webhook list
     \<Rightarrow> reg_result list \<times> webhook list \<times> call list" where
  "createWebhooks api appUrl [] subs = ([], subs, [])"
| "createWebhooks api appUrl ((topic, uri) # rest) subs =
     (let (result, subs1) =
        (case create_response api (topic_name topic) of
           Accepted \<Rightarrow>
             (let w = \<lparr> wh_id = fresh_id (map wh_id subs), wh_topic = topic_name topic,
                        wh_callbackUrl = Some (appUrl @ uri) \<rparr>
              in (\<lparr> rr_topic = topic, rr_status = ''created'', rr_webhook = Some w,
                     rr_errors = None, rr_error = None \<rparr>, subs @ [w]))
         | UserErrors e es \<Rightarrow>
             (\<lparr> rr_topic = topic, rr_status = ''failed'', rr_webhook = None,
                rr_errors = Some (e # es), rr_error = None \<rparr>, subs)
         | Rejected err \<Rightarrow>
             (\<lparr> rr_topic = topic, rr_status = ''error'', rr_webhook = None,
                rr_errors = None, rr_error = Some (message err) \<rparr>, subs));
          (results, subs2, calls) = createWebhooks api appUrl rest subs1
      in (result # results, subs2, Create (topic_name topic) (appUrl @ uri) # calls))"

text \<open>
  \<open>registerWebhooks\<close>, run against the subscriptions \<open>subs\<close> of the remote. \<open>envUrl\<close> is
  \<open>process.env.SHOPIFY_APP_URL\<close> and \<open>configUrl\<close> what \<open>getAppUrlFromConfig\<close> returns. The
  listing asks for the first fifty subscriptions. The result is the value returned or the
  error thrown, the subscriptions of the remote afterwards, and the mutations sent.
\<close>

definition registerWebhooks ::
  "remote_api \<Rightarrow> string option \<Rightarrow> string option \<Rightarrow> webhook list
     \<Rightarrow> reg_result list outcome \<times> webhook list \<times> call list" where
  "registerWebhooks api envUrl configUrl subs =
     (case list_error api of
        Some e \<Rightarrow> (Throw e, subs, [])
      | None \<Rightarrow>
          (let existingWebhooks = take 50 subs in
           case (if truthy envUrl then envUrl else configUrl) of
             None \<Rightarrow> (Throw (Error ''Could not determine app URL. Please set SHOPIFY_APP_URL environment variable or ensure shopify.app.toml has application_url set.''), subs, [])
           | Some appUrl \<Rightarrow>
               if appUrl = []
               then (Throw (Error ''Could not determine app URL. Please set SHOPIFY_APP_URL environment variable or ensure shopify.app.toml has application_url set.''), subs, [])
               else
                 (let webhooksToUpdate = filter (pointsToOldUrl appUrl) existingWebhooks in
                  if existingWebhooks \<noteq> [] \<and> webhooksToUpdate = []
                     \<and> filter (\<lambda>(topic, uri). \<not> hasCorrectWebhook existingWebhooks appUrl topic)
                           webhookTopics = []
                  then (Return [], subs, [])
                  else
                    (let (subs1, deletes) =
                           (if webhooksToUpdate \<noteq> []
                            then deleteOldWebhooks api webhooksToUpdate subs
                            else (subs, []));
                         topicsNeedingWebhooks =
                           filter (\<lambda>(topic, uri). \<not> hasCorrectWebhook existingWebhooks appUrl topic)
                             webhookTopics;
                         (created, subs2, creates) =
                           createWebhooks api appUrl topicsNeedingWebhooks subs1;
                         existing =
                           map (\<lambda>(topic, uri).
                                  \<lparr> rr_topic = topic, rr_status = ''exists'', rr_webhook = None,
                                    rr_errors = None, rr_error = None \<rparr>)
                             (filter (\<lambda>(topic, uri). hasCorrectWebhook existingWebhooks appUrl topic)
                                webhookTopics)
                     in (Return (created @ existing), subs2, deletes @ creates)))))"

text \<open>
  The statuses an entry of the result can have; the topics that have no webhook with the
  correct URL; and the state in which the function returns at once, with an empty list.
\<close>

definition status_known :: "reg_result \<Rightarrow> bool" where
  "status_known r \<longleftrightarrow> rr_status r \<in> {''created'', ''failed'', ''error'', ''exists''}"

definition needing :: "webhook list \<Rightarrow> string \<Rightarrow> (string \<times> string) list" where
  "needing existingWebhooks appUrl =
     filter (\<lambda>(topic, uri). \<not> hasCorrectWebhook existingWebhooks appUrl topic) webhookTopics"

definition converged :: "webhook list \<Rightarrow> string \<Rightarrow> bool" where
  "converged existingWebhooks appUrl \<longleftrightarrow>
     existingWebhooks \<noteq> [] \<and> filter (pointsToOldUrl appUrl) existingWebhooks = []
     \<and> needing existingWebhooks appUrl = []"

section \<open>Fixtures\<close>

text \<open>
  A table with one completed and one started row, reached from the empty table by the
  operations themselves.
\<close>

definition two_logs :: db where
  "two_logs =
     snd (createSyncLog 1 ''collections'' ''initial''
       (snd (completeSyncLog 1 4 4 (snd (createSyncLog 1 ''products'' ''initial'' empty_db)))))"

text \<open>A remote that answers the k-th request with the k-th page of a script.\<close>

definition scripted :: "'n page list \<Rightarrow> 'n graphql" where
  "scripted pgs k c =
     (if k < length pgs then Return (pgs ! k) else Throw (Error ''unexpected request''))"

text \<open>A product with the given identifier, and one variant with the given identifier.\<close>

definition a_product :: "string \<Rightarrow> string \<Rightarrow> product_node" where
  "a_product gid variantGid =
     \<lparr> pn_id = gid, pn_title = ''Mug'', pn_handle = ''mug'', pn_vendor = ''Acme'',
       pn_status = ''ACTIVE'', pn_createdAt = ''2024-01-01T00:00:00Z'',
       pn_updatedAt = ''2024-01-02T00:00:00Z'',
       pn_variants = [\<lparr> vn_id = variantGid, vn_title = ''Default'', vn_price = ''9.50'',
                        vn_sku = ''MUG-1'', vn_inventoryQuantity = 3,
                        vn_createdAt = ''2024-01-01T00:00:00Z'',
                        vn_updatedAt = ''2024-01-02T00:00:00Z'' \<rparr>],
       pn_images = [] \<rparr>"

text \<open>Two pages of products, three records and one.\<close>

definition two_product_pages :: "product_node page list" where
  "two_product_pages =
     [\<lparr> edges = [a_product ''gid://shopify/Product/1'' ''gid://shopify/ProductVariant/11'',
                  a_product ''gid://shopify/Product/2'' ''gid://shopify/ProductVariant/21'',
                  a_product ''gid://shopify/Product/3'' ''gid://shopify/ProductVariant/31''],
        hasNextPage = True, endCursor = Some ''cursor-1'' \<rparr>,
      \<lparr> edges = [a_product ''gid://shopify/Product/4'' ''gid://shopify/ProductVariant/41''],
        hasNextPage = False, endCursor = None \<rparr>]"

text \<open>
  A store with one product, a collection with remote id 100 that is linked to a product
  with local id 7, and another collection linked to the product; and the remote state of
  collection 100, with the product and a product that has no local row as members.
\<close>

definition one_product_db :: db where
  "one_product_db =
     (snd (syncSingleProduct 1
             (a_product ''gid://shopify/Product/1'' ''gid://shopify/ProductVariant/11'') empty_db))
       \<lparr> collections := [\<lparr> collection_id = 1, collection_collectionId = 100, collection_shopId = 1,
                           collection_handle = ''old'', collection_title = ''Old'',
                           collection_createdAt = Now 0, collection_updatedAt = Now 0 \<rparr>],
         collectionProducts := [\<lparr> cp_collectionId = 1, cp_productId = 7 \<rparr>,
                                \<lparr> cp_collectionId = 2, cp_productId = 1 \<rparr>] \<rparr>"

definition a_collection :: collection_node where
  "a_collection = \<lparr> cn_id = ''gid://shopify/Collection/100'', cn_handle = ''mugs'',
      cn_title = ''Mugs'',
      cn_products = [''gid://shopify/Product/1'', ''gid://shopify/Product/9''] \<rparr>"

text \<open>A shop, a page of five products whose third record has an id that does not convert,
  and a page with one collection.\<close>

definition demo_shop :: "shop_node outcome" where
  "demo_shop = Return \<lparr> sn_id = ''gid://shopify/Shop/77'', sn_name = ''Demo'',
      sn_email = ''owner@example.com'', sn_currencyCode = ''USD'' \<rparr>"

definition five_products_one_page :: "product_node page list" where
  "five_products_one_page =
     [\<lparr> edges = [a_product ''gid://shopify/Product/1'' ''gid://shopify/ProductVariant/11'',
                  a_product ''gid://shopify/Product/2'' ''gid://shopify/ProductVariant/21'',
                  a_product ''gid://shopify/Product/oops'' ''gid://shopify/ProductVariant/31'',
                  a_product ''gid://shopify/Product/4'' ''gid://shopify/ProductVariant/41'',
                  a_product ''gid://shopify/Product/5'' ''gid://shopify/ProductVariant/51''],
        hasNextPage = False, endCursor = None \<rparr>]"

definition one_collection_page :: "collection_node page list" where
  "one_collection_page = [\<lparr> edges = [a_collection], hasNextPage = False, endCursor = None \<rparr>]"

text \<open>
  The five products in two pages, the record that does not convert first on the second
  page; and a page with one collection that has one member.
\<close>

definition five_products_two_pages :: "product_node page list" where
  "five_products_two_pages =
     [\<lparr> edges = [a_product ''gid://shopify/Product/1'' ''gid://shopify/ProductVariant/11'',
                  a_product ''gid://shopify/Product/2'' ''gid://shopify/ProductVariant/21''],
        hasNextPage = True, endCursor = Some ''cursor-1'' \<rparr>,
      \<lparr> edges = [a_product ''gid://shopify/Product/oops'' ''gid://shopify/ProductVariant/31'',
                  a_product ''gid://shopify/Product/4'' ''gid://shopify/ProductVariant/41'',
                  a_product ''gid://shopify/Product/5'' ''gid://shopify/ProductVariant/51''],
        hasNextPage = False, endCursor = None \<rparr>]"

definition small_collection_page :: "collection_node page list" where
  "small_collection_page =
     [\<lparr> edges = [\<lparr> cn_id = ''gid://shopify/Collection/100'', cn_handle = ''mugs'',
                     cn_title = ''Mugs'', cn_products = [''gid://shopify/Product/1''] \<rparr>],
        hasNextPage = False, endCursor = None \<rparr>]"

text \<open>
  An order with two line items: one refers to the variant and the product of the store
  above, the other to a variant that has no local row.
\<close>

definition an_order :: order_node where
  "an_order =
     \<lparr> on_id = ''gid://shopify/Order/500'', on_orderNumber = Some 1001,
       on_email = Value ''buyer@example.com'', on_financialStatus = Undefined,
       on_fulfillmentStatus = Undefined, on_totalPrice = Some ''19.00'',
       on_currencyCode = Value ''USD'', on_createdAt = ''2024-02-01T00:00:00Z'',
       on_updatedAt = ''2024-02-01T00:00:00Z'', on_customer = None,
       on_lineItems =
         [\<lparr> li_quantity = 1, li_amount = ''9.50'',
            li_variant = Some ''gid://shopify/ProductVariant/11'',
            li_product = Some ''gid://shopify/Product/1'' \<rparr>,
          \<lparr> li_quantity = 1, li_amount = ''9.50'',
            li_variant = Some ''gid://shopify/ProductVariant/99'', li_product = None \<rparr>],
       on_shippingAddress = None, on_billingAddress = None \<rparr>"

text \<open>
  A remote that carries out every mutation, and one whose creation of the product update
  topic throws; subscriptions with one that points to an old URL and one topic missing;
  and subscriptions that are all in place.
\<close>

definition accepting_api :: remote_api where
  "accepting_api = \<lparr> list_error = None, delete_response = (\<lambda>i. Accepted),
     create_response = (\<lambda>t. Accepted) \<rparr>"

definition rejecting_api :: remote_api where
  "rejecting_api = \<lparr> list_error = None, delete_response = (\<lambda>i. Accepted),
     create_response = (\<lambda>t. if t = ''PRODUCTS_UPDATE'' then Rejected (Error ''socket hang up'')
                             else Accepted) \<rparr>"

definition stale_and_missing :: "webhook list" where
  "stale_and_missing =
     [\<lparr> wh_id = 1, wh_topic = ''PRODUCTS_CREATE'',
        wh_callbackUrl = Some ''https://old.example.com/webhooks/products/create'' \<rparr>,
      \<lparr> wh_id = 2, wh_topic = ''APP_UNINSTALLED'',
        wh_callbackUrl = Some ''https://new.example.com/webhooks/app/uninstalled'' \<rparr>,
      \<lparr> wh_id = 3, wh_topic = ''APP_SCOPES_UPDATE'',
        wh_callbackUrl = Some ''https://new.example.com/webhooks/app/scopes_update'' \<rparr>]"

definition four_correct :: "webhook list" where
  "four_correct =
     [\<lparr> wh_id = 1, wh_topic = ''PRODUCTS_CREATE'',
        wh_callbackUrl = Some ''https://new.example.com/webhooks/products/create'' \<rparr>,
      \<lparr> wh_id = 2, wh_topic = ''PRODUCTS_UPDATE'',
        wh_callbackUrl = Some ''https://new.example.com/webhooks/products/update'' \<rparr>,
      \<lparr> wh_id = 3, wh_topic = ''APP_UNINSTALLED'',
        wh_callbackUrl = Some ''https://new.example.com/webhooks/app/uninstalled'' \<rparr>,
      \<lparr> wh_id = 4, wh_topic = ''APP_SCOPES_UPDATE'',
        wh_callbackUrl = Some ''https://new.example.com/webhooks/app/scopes_update'' \<rparr>]"

text \<open>
  The store after the shop sync; a schedule in which the two syncs take turns, 21 steps
  each; and a page with one collection that has the fourth and the first product as
  members.
\<close>

definition synced_shop :: db where
  "synced_shop = snd (syncShopData ''demo.myshopify.com'' demo_shop empty_db)"

definition taking_turns :: "bool list" where
  "taking_turns = concat (replicate 21 [True, False])"

definition two_member_collection_page :: "collection_node page list" where
  "two_member_collection_page =
     [\<lparr> edges = [\<lparr> cn_id = ''gid://shopify/Collection/100'', cn_handle = ''mugs'',
                     cn_title = ''Mugs'',
                     cn_products = [''gid://shopify/Product/4'', ''gid://shopify/Product/1''] \<rparr>],
        hasNextPage = False, endCursor = None \<rparr>]"

section \<open>Theorems: sync log\<close>

lemma syncLog_update_inv:
  assumes "syncLog_inv d" and "\<And>r. log_ok r \<Longrightarrow> log_ok (f r)"
  shows "syncLog_inv (snd (syncLog_update i f d))"
  using assms by (auto simp: syncLog_update_def syncLog_inv_def list_all_iff)

text \<open>
  Claim C8. Every sync log operation keeps the invariant "completedAt is set exactly when
  the status is completed or failed": creating a row in the started state, the per-page
  progress update, completing and failing. Under the invariant a row whose status is
  started has no completedAt.
\<close>

theorem syncLog_completedAt_invariant:
  assumes "syncLog_inv d"
  shows "syncLog_inv (snd (createSyncLog shopId entityType syncType d))
       \<and> syncLog_inv (snd (updateSyncLog i n d))
       \<and> syncLog_inv (snd (completeSyncLog i n m d))
       \<and> syncLog_inv (snd (failSyncLog i msg d))
       \<and> (\<forall>r \<in> set (syncLogs d). log_status r = ''started'' \<longrightarrow> log_completedAt r = None)"
proof -
  have "syncLog_inv (snd (createSyncLog shopId entityType syncType d))"
    using assms by (simp add: createSyncLog_def syncLog_inv_def log_ok_def Let_def)
  moreover have "syncLog_inv (snd (updateSyncLog i n d))"
    unfolding updateSyncLog_def using assms
    by (rule syncLog_update_inv) (simp add: log_ok_def)
  moreover have "syncLog_inv (snd (completeSyncLog i n m d))"
    unfolding completeSyncLog_def using assms
    by (rule syncLog_update_inv) (simp add: log_ok_def)
  moreover have "syncLog_inv (snd (failSyncLog i msg d))"
    unfolding failSyncLog_def using assms
    by (rule syncLog_update_inv) (simp add: log_ok_def)
  moreover have "\<forall>r \<in> set (syncLogs d). log_status r = ''started'' \<longrightarrow> log_completedAt r = None"
    using assms by (auto simp: syncLog_inv_def list_all_iff log_ok_def)
  ultimately show ?thesis by blast
qed

lemma two_logs_rows:
  "map log_status (syncLogs two_logs) = [''completed'', ''started'']"
  "map log_completedAt (syncLogs two_logs) = [Some (Now 0), None]"
  "map log_id (syncLogs two_logs) = [1, 2]"
  by (simp_all add: two_logs_def createSyncLog_def completeSyncLog_def syncLog_update_def
      empty_db_def fresh_id_def Let_def)

theorem syncLog_completedAt_invariant_witness:
  "syncLog_inv two_logs
   \<and> syncLog_inv (snd (createSyncLog 1 ''products'' ''initial'' two_logs))
   \<and> syncLog_inv (snd (updateSyncLog 2 3 two_logs))
   \<and> syncLog_inv (snd (completeSyncLog 2 3 3 two_logs))
   \<and> syncLog_inv (snd (failSyncLog 2 ''boom'' two_logs))
   \<and> map log_status (syncLogs two_logs) = [''completed'', ''started'']
   \<and> map log_completedAt (syncLogs two_logs) = [Some (Now 0), None]"
proof -
  have h: "syncLog_inv two_logs"
    by (simp add: syncLog_inv_def log_ok_def two_logs_def createSyncLog_def
        completeSyncLog_def syncLog_update_def empty_db_def fresh_id_def Let_def)
  from syncLog_completedAt_invariant [OF h, of 1 "''products''" "''initial''" 2 3 3 "''boom''"]
  show ?thesis using h two_logs_rows by simp
qed

section \<open>Theorems: remote identifiers\<close>

lemmas BigInt_eval =
  remote_id_def BigInt_def StringToBigInt_def trim_def is_white_def digits_def
  digit_of_def Let_def

lemma replace_first_prefix: "replace_first pre [] (pre @ s) = s"
proof (cases "pre @ s")
  case Nil
  then show ?thesis by simp
next
  case (Cons a list)
  have p: "prefix pre (a # list)" unfolding Cons [symmetric] by simp
  have "replace_first pre [] (a # list) = drop (length pre) (a # list)"
    using p by simp
  also have "\<dots> = s" unfolding Cons [symmetric] by simp
  finally show ?thesis using Cons by simp
qed

lemma parse_digits_decimal:
  "list_all decimal_digit ds \<Longrightarrow>
     parse_digits 10 ds acc = Some (acc * 10 ^ length ds + decimal_rev (rev ds))"
proof (induction ds arbitrary: acc rule: rev_induct)
  case Nil
  then show ?case by simp
next
  case (snoc c ds)
  have app: "\<And>xs ys a. parse_digits 10 (xs @ ys) a =
      (case parse_digits 10 xs a of None \<Rightarrow> None | Some b \<Rightarrow> parse_digits 10 ys b)"
  proof -
    fix xs ys a show "parse_digits 10 (xs @ ys) a =
      (case parse_digits 10 xs a of None \<Rightarrow> None | Some b \<Rightarrow> parse_digits 10 ys b)"
      by (induction xs arbitrary: a) (auto split: option.splits)
  qed
  from snoc.prems have ds: "list_all decimal_digit ds" and c: "decimal_digit c" by simp_all
  from c have dc: "digit_of 10 c = Some (of_char c - 48)"
    by (auto simp: decimal_digit_def digit_of_def Let_def)
  show ?case
    by (simp add: app snoc.IH [OF ds] dc algebra_simps)
qed

lemma decimal_not_white: "decimal_digit c \<Longrightarrow> \<not> is_white c"
  by (auto simp: decimal_digit_def is_white_def)

lemma trim_decimal: "list_all decimal_digit ds \<Longrightarrow> trim ds = ds"
proof -
  assume a: "list_all decimal_digit ds"
  have dw: "\<And>xs. list_all decimal_digit xs \<Longrightarrow> dropWhile is_white xs = xs"
    by (case_tac xs) (auto simp: decimal_not_white)
  have "list_all decimal_digit (rev ds)" using a by (simp add: list_all_iff)
  then show ?thesis using a by (simp add: trim_def dw)
qed

lemma StringToBigInt_decimal:
  assumes "ds \<noteq> []" and "list_all decimal_digit ds"
  shows "StringToBigInt ds = Some (int (decimal_value ds))"
proof -
  obtain c cs where ds: "ds = c # cs" using assms(1) by (cases ds) auto
  have c: "decimal_digit c" using assms(2) ds by simp
  then have ne: "c \<noteq> CHR ''+''" "c \<noteq> CHR ''-''"
    by (auto simp: decimal_digit_def)
  have z: "cs \<noteq> [] \<Longrightarrow> decimal_digit (hd cs)" using assms(2) ds by (cases cs) auto
  have nx: "cs \<noteq> [] \<Longrightarrow> hd cs \<notin> {CHR ''x'', CHR ''X'', CHR ''o'', CHR ''O'', CHR ''b'', CHR ''B''}"
    using z by (auto simp: decimal_digit_def)
  have "digits 10 (c # cs) = Some (decimal_value ds)"
    using parse_digits_decimal [OF assms(2), of 0] ds
    by (simp add: digits_def decimal_value_def)
  then show ?thesis
    using ne nx trim_decimal [OF assms(2)] ds by (auto simp: StringToBigInt_def)
qed

lemma mem_chars: "c \<in> set S \<longleftrightarrow> (of_char c :: nat) \<in> set (map of_char S)"
  by (auto simp: image_iff)

lemma digit_of_10: "digit_of 10 c \<noteq> None \<longleftrightarrow> c \<in> set ''0123456789''"
proof -
  have "digit_of 10 c \<noteq> None \<longleftrightarrow> 48 \<le> (of_char c :: nat) \<and> (of_char c :: nat) \<le> 57"
    by (auto simp: digit_of_def Let_def)
  also have "\<dots> \<longleftrightarrow> c \<in> set ''0123456789''"
    unfolding mem_chars [of c] by simp presburger
  finally show ?thesis .
qed

lemma digit_of_16: "digit_of 16 c \<noteq> None \<longleftrightarrow> c \<in> set ''0123456789abcdefABCDEF''"
proof -
  have "digit_of 16 c \<noteq> None \<longleftrightarrow>
      48 \<le> (of_char c :: nat) \<and> (of_char c :: nat) \<le> 57
      \<or> 97 \<le> (of_char c :: nat) \<and> (of_char c :: nat) \<le> 102
      \<or> 65 \<le> (of_char c :: nat) \<and> (of_char c :: nat) \<le> 70"
    by (auto simp: digit_of_def Let_def)
  also have "\<dots> \<longleftrightarrow> c \<in> set ''0123456789abcdefABCDEF''"
    unfolding mem_chars [of c] by simp presburger
  finally show ?thesis .
qed

lemma digit_of_8: "digit_of 8 c \<noteq> None \<longleftrightarrow> c \<in> set ''01234567''"
proof -
  have "digit_of 8 c \<noteq> None \<longleftrightarrow> 48 \<le> (of_char c :: nat) \<and> (of_char c :: nat) \<le> 55"
    by (auto simp: digit_of_def Let_def)
  also have "\<dots> \<longleftrightarrow> c \<in> set ''01234567''"
    unfolding mem_chars [of c] by simp presburger
  finally show ?thesis .
qed

lemma digit_of_2: "digit_of 2 c \<noteq> None \<longleftrightarrow> c \<in> set ''01''"
proof -
  have "digit_of 2 c \<noteq> None \<longleftrightarrow> 48 \<le> (of_char c :: nat) \<and> (of_char c :: nat) \<le> 49"
    by (auto simp: digit_of_def Let_def)
  also have "\<dots> \<longleftrightarrow> c \<in> set ''01''"
    unfolding mem_chars [of c] by simp presburger
  finally show ?thesis .
qed

lemma parse_digits_accepts:
  "parse_digits radix s acc \<noteq> None \<longleftrightarrow> list_all (\<lambda>c. digit_of radix c \<noteq> None) s"
  by (induction s arbitrary: acc) (auto split: option.splits)

lemma digits_accepts_gen:
  "digits r s \<noteq> None \<longleftrightarrow> s \<noteq> [] \<and> list_all (\<lambda>c. digit_of r c \<noteq> None) s"
  using parse_digits_accepts [of r s 0] by (simp add: digits_def del: not_None_eq)

lemma digits_accepts:
  "digits 10 s = None \<longleftrightarrow> \<not> digit_string ''0123456789'' s"
  "digits 16 s = None \<longleftrightarrow> \<not> digit_string ''0123456789abcdefABCDEF'' s"
  "digits 8 s = None \<longleftrightarrow> \<not> digit_string ''01234567'' s"
  "digits 2 s = None \<longleftrightarrow> \<not> digit_string ''01'' s"
  using digits_accepts_gen [of 10 s] digits_accepts_gen [of 16 s] digits_accepts_gen [of 8 s]
    digits_accepts_gen [of 2 s]
  unfolding digit_string_def digit_of_10 digit_of_16 digit_of_8 digit_of_2
  by blast+

lemma StringToBigInt_accepts: "StringToBigInt s \<noteq> None \<longleftrightarrow> integer_literal (trim s)"
proof (cases "trim s")
  case Nil
  then show ?thesis by (simp add: StringToBigInt_def integer_literal_def)
next
  case (Cons c cs)
  have 1: "StringToBigInt s = None \<longleftrightarrow>
     \<not> (if c = CHR ''+'' then digit_string ''0123456789'' cs
        else if c = CHR ''-'' then digit_string ''0123456789'' cs
        else if c = CHR ''0'' \<and> cs \<noteq> [] \<and> hd cs \<in> {CHR ''x'', CHR ''X''}
          then digit_string ''0123456789abcdefABCDEF'' (tl cs)
        else if c = CHR ''0'' \<and> cs \<noteq> [] \<and> hd cs \<in> {CHR ''o'', CHR ''O''}
          then digit_string ''01234567'' (tl cs)
        else if c = CHR ''0'' \<and> cs \<noteq> [] \<and> hd cs \<in> {CHR ''b'', CHR ''B''}
          then digit_string ''01'' (tl cs)
        else digit_string ''0123456789'' (c # cs))"
    unfolding StringToBigInt_def Cons list.case
    by (simp only: digits_accepts map_option_is_None if_distrib [where f = "\<lambda>x. x = None"] if_distrib [where f = Not] cong: if_cong)
  have 2: "take 2 (c # cs) = (if cs = [] then [c] else [c, hd cs])"
    "drop 2 (c # cs) = tl cs"
    by (cases cs; simp)+
  have h: "cs \<noteq> [] \<Longrightarrow> hd cs \<notin> set ''0123456789'' \<Longrightarrow> \<not> digit_string ''0123456789'' (c # cs)"
    by (cases cs) (simp_all add: digit_string_def)
  have s: "c \<notin> set ''0123456789'' \<Longrightarrow> \<not> digit_string ''0123456789'' (c # cs)"
    by (simp add: digit_string_def)
  consider (plus) "c = CHR ''+''" | (minus) "c = CHR ''-''"
    | (hex) "c = CHR ''0''" "cs \<noteq> []" "hd cs \<in> {CHR ''x'', CHR ''X''}"
    | (oct) "c = CHR ''0''" "cs \<noteq> []" "hd cs \<in> {CHR ''o'', CHR ''O''}"
    | (bin) "c = CHR ''0''" "cs \<noteq> []" "hd cs \<in> {CHR ''b'', CHR ''B''}"
    | (dec) "c \<noteq> CHR ''+''" "c \<noteq> CHR ''-''"
        "\<not> (c = CHR ''0'' \<and> cs \<noteq> [] \<and> hd cs \<in> {CHR ''x'', CHR ''X'', CHR ''o'', CHR ''O'', CHR ''b'', CHR ''B''})"
    by blast
  then have "integer_literal (c # cs) \<longleftrightarrow>
       (if c = CHR ''+'' then digit_string ''0123456789'' cs
        else if c = CHR ''-'' then digit_string ''0123456789'' cs
        else if c = CHR ''0'' \<and> cs \<noteq> [] \<and> hd cs \<in> {CHR ''x'', CHR ''X''}
          then digit_string ''0123456789abcdefABCDEF'' (tl cs)
        else if c = CHR ''0'' \<and> cs \<noteq> [] \<and> hd cs \<in> {CHR ''o'', CHR ''O''}
          then digit_string ''01234567'' (tl cs)
        else if c = CHR ''0'' \<and> cs \<noteq> [] \<and> hd cs \<in> {CHR ''b'', CHR ''B''}
          then digit_string ''01'' (tl cs)
        else digit_string ''0123456789'' (c # cs))"
  proof cases
    case plus
    then show ?thesis using s unfolding integer_literal_def 2 by simp
  next
    case minus
    then show ?thesis using s unfolding integer_literal_def 2 by simp
  next
    case hex
    then have "hd cs \<notin> set ''0123456789''" by auto
    from h [OF hex(2) this] hex show ?thesis unfolding integer_literal_def 2 by auto
  next
    case oct
    then have "hd cs \<notin> set ''0123456789''" by auto
    from h [OF oct(2) this] oct show ?thesis unfolding integer_literal_def 2 by auto
  next
    case bin
    then have "hd cs \<notin> set ''0123456789''" by auto
    from h [OF bin(2) this] bin show ?thesis unfolding integer_literal_def 2 by auto
  next
    case dec
    then show ?thesis unfolding integer_literal_def 2 by auto
  qed
  then show ?thesis using 1 unfolding Cons by simp
qed

lemma BigInt_throws:
  "BigInt s = (if integer_literal (trim s) then Return (the (StringToBigInt s))
               else Throw (SyntaxError (''Cannot convert '' @ s @ '' to a BigInt'')))"
  using StringToBigInt_accepts [of s] by (cases "StringToBigInt s") (simp_all add: BigInt_def)

text \<open>
  Claim C4 (as amended). An identifier is mapped by removing the first occurrence of the
  entity's fixed prefix and converting what is left with \<open>BigInt\<close>:
  \<open>gid://shopify/Product/987654321\<close> gives 987654321; after the prefix, every non-empty
  string of decimal digits gives exactly the number it denotes, of any size; a rest that,
  with white space trimmed, is not an integer literal throws a SyntaxError that names the
  rest; and every rest that is one gives a value.
\<close>

theorem remote_id_reduction:
  "remote_id ''gid://shopify/Product/'' ''gid://shopify/Product/987654321'' = Return 987654321
   \<and> (\<forall>pre ds. ds \<noteq> [] \<and> list_all decimal_digit ds \<longrightarrow>
         remote_id pre (pre @ ds) = Return (int (decimal_value ds)))
   \<and> (\<forall>pre s. \<not> integer_literal (trim s) \<longrightarrow>
         remote_id pre (pre @ s) = Throw (SyntaxError (''Cannot convert '' @ s @ '' to a BigInt'')))
   \<and> (\<forall>pre s. integer_literal (trim s) \<longrightarrow> returns (remote_id pre (pre @ s)))"
proof (intro conjI allI impI)
  show "remote_id ''gid://shopify/Product/'' ''gid://shopify/Product/987654321'' = Return 987654321"
    by (simp add: BigInt_eval)
next
  fix pre ds assume "ds \<noteq> [] \<and> list_all decimal_digit ds"
  then show "remote_id pre (pre @ ds) = Return (int (decimal_value ds))"
    by (simp add: remote_id_def replace_first_prefix BigInt_def StringToBigInt_decimal)
next
  fix pre s assume "\<not> integer_literal (trim s)"
  then show "remote_id pre (pre @ s) = Throw (SyntaxError (''Cannot convert '' @ s @ '' to a BigInt''))"
    unfolding remote_id_def replace_first_prefix by (simp add: BigInt_throws)
next
  fix pre s assume "integer_literal (trim s)"
  then show "returns (remote_id pre (pre @ s))"
    unfolding remote_id_def replace_first_prefix by (simp add: BigInt_throws)
qed

theorem remote_id_reduction_witness:
  "''42'' \<noteq> [] \<and> list_all decimal_digit ''42'' \<and> decimal_value ''42'' = 42
   \<and> remote_id ''gid://shopify/ProductVariant/'' ''gid://shopify/ProductVariant/42'' = Return 42
   \<and> \<not> integer_literal (trim ''abc'')
   \<and> remote_id ''gid://shopify/Product/'' ''gid://shopify/Product/abc''
       = Throw (SyntaxError ''Cannot convert abc to a BigInt'')
   \<and> \<not> integer_literal (trim ''12ab'')
   \<and> remote_id ''gid://shopify/Product/'' ''gid://shopify/Product/12ab''
       = Throw (SyntaxError ''Cannot convert 12ab to a BigInt'')
   \<and> \<not> integer_literal (trim ''1e5'')
   \<and> remote_id ''gid://shopify/Product/'' ''gid://shopify/Product/1e5''
       = Throw (SyntaxError ''Cannot convert 1e5 to a BigInt'')
   \<and> \<not> integer_literal (trim ''0x'')
   \<and> remote_id ''gid://shopify/Product/'' ''gid://shopify/Product/0x''
       = Throw (SyntaxError ''Cannot convert 0x to a BigInt'')
   \<and> integer_literal (trim '' 12 '')
   \<and> returns (remote_id ''gid://shopify/Product/'' ''gid://shopify/Product/ 12 '')"
proof -
  have d: "''42'' \<noteq> [] \<and> list_all decimal_digit ''42''"
    by (simp add: decimal_digit_def)
  have v: "decimal_value ''42'' = 42"
    by (simp add: decimal_value_def)
  have b: "\<not> integer_literal (trim ''abc'')" "\<not> integer_literal (trim ''12ab'')"
    "\<not> integer_literal (trim ''1e5'')" "\<not> integer_literal (trim ''0x'')"
    and l: "integer_literal (trim '' 12 '')"
    by (simp_all add: integer_literal_def digit_string_def trim_def is_white_def)
  note T = remote_id_reduction
  from T d have "remote_id ''gid://shopify/ProductVariant/'' (''gid://shopify/ProductVariant/'' @ ''42'')
          = Return (int (decimal_value ''42''))"
    by blast
  moreover from T b(1)
  have "remote_id ''gid://shopify/Product/'' (''gid://shopify/Product/'' @ ''abc'')
          = Throw (SyntaxError (''Cannot convert '' @ ''abc'' @ '' to a BigInt''))"
    by blast
  moreover from T b(2)
  have "remote_id ''gid://shopify/Product/'' (''gid://shopify/Product/'' @ ''12ab'')
          = Throw (SyntaxError (''Cannot convert '' @ ''12ab'' @ '' to a BigInt''))"
    by blast
  moreover from T b(3)
  have "remote_id ''gid://shopify/Product/'' (''gid://shopify/Product/'' @ ''1e5'')
          = Throw (SyntaxError (''Cannot convert '' @ ''1e5'' @ '' to a BigInt''))"
    by blast
  moreover from T b(4)
  have "remote_id ''gid://shopify/Product/'' (''gid://shopify/Product/'' @ ''0x'')
          = Throw (SyntaxError (''Cannot convert '' @ ''0x'' @ '' to a BigInt''))"
    by blast
  moreover from T l
  have "returns (remote_id ''gid://shopify/Product/'' (''gid://shopify/Product/'' @ '' 12 ''))"
    by blast
  ultimately show ?thesis using d v b l by simp
qed

text \<open>
  The claim as written fails for a rest that is not a number and is a literal all the
  same: the empty rest is converted to zero and a rest in radix 16 to its value, where
  the claim has an error.
\<close>

theorem remote_id_counterexample:
  "remote_id ''gid://shopify/Product/'' ''gid://shopify/Product/'' = Return 0
   \<and> remote_id ''gid://shopify/Product/'' ''gid://shopify/Product/0x1F'' = Return 31"
  by (simp add: BigInt_eval)

section \<open>Theorems: pagination\<close>

lemma last_page:
  "Suc k = length pgs \<Longrightarrow> pgs ! k = last pgs"
  by (cases pgs rule: rev_cases) (auto simp: nth_append)

lemma sync_loop_bound:
  assumes adm: "\<forall>k<length pgs. \<forall>c. admin k c = Return (pgs ! k)"
      and nxt: "\<forall>k. Suc k < length pgs \<longrightarrow> hasNextPage (pgs ! k) \<and> truthy (endCursor (pgs ! k))"
      and lst: "\<not> hasNextPage (last pgs)"
  shows "length reqs < length pgs \<Longrightarrow>
     \<exists>r reqs' d'. sync_loop syncEdges admin syncLogId reqs cur n d = Some (r, reqs', d')
        \<and> length reqs' \<le> length pgs \<and> (returns r \<longrightarrow> length reqs' = length pgs)"
proof (induction "length pgs - length reqs" arbitrary: reqs cur n d)
  case 0
  then show ?case by simp
next
  case (Suc m)
  let ?k = "length reqs"
  let ?v = "if truthy cur then cur else None"
  let ?pg = "pgs ! ?k"
  have a: "admin ?k ?v = Return ?pg" using adm Suc.prems by blast
  obtain r1 d1 where e: "syncEdges (edges ?pg) n d = (r1, d1)" by (cases "syncEdges (edges ?pg) n d")
  show ?case
  proof (cases r1)
    case (Throw x)
    then show ?thesis using a e Suc.prems
      by (subst sync_loop.simps) (simp add: Let_def)
  next
    case (Return n1)
    obtain r2 d2 where u: "updateSyncLog syncLogId n1 d1 = (r2, d2)"
      by (cases "updateSyncLog syncLogId n1 d1")
    show ?thesis
    proof (cases r2)
      case (Throw x)
      then show ?thesis using a e Return u Suc.prems
        by (subst sync_loop.simps) (simp add: Let_def)
    next
      case R2: (Return u2)
      show ?thesis
      proof (cases "Suc ?k < length pgs")
        case True
        then have t: "hasNextPage ?pg" "truthy (endCursor ?pg)" using nxt by blast+
        have m: "m = length pgs - length (reqs @ [?v])" using Suc.hyps(2) by simp
        have l: "length (reqs @ [?v]) < length pgs" using True by simp
        from Suc.hyps(1) [OF m l, of "endCursor ?pg" n1 d2]
        show ?thesis using a e Return u R2 t
          by (subst sync_loop.simps) (simp add: Let_def)
      next
        case False
        then have "Suc ?k = length pgs" using Suc.prems by simp
        then have "\<not> hasNextPage ?pg" using lst last_page by metis
        then show ?thesis using a e Return u R2 \<open>Suc ?k = length pgs\<close>
          by (subst sync_loop.simps) (simp add: Let_def)
      qed
    qed
  qed
qed

lemma updateSyncLog_present:
  assumes "syncLogId \<in> log_id ` set (syncLogs d)"
  shows "\<exists>d'. updateSyncLog syncLogId n d = (Return (), d')
           \<and> map log_id (syncLogs d') = map log_id (syncLogs d)"
  using assms by (auto simp: updateSyncLog_def syncLog_update_def)

lemma sync_loop_exact:
  assumes adm: "\<forall>k<length pgs. \<forall>c. admin k c = Return (pgs ! k)"
      and nxt: "\<forall>k. Suc k < length pgs \<longrightarrow> hasNextPage (pgs ! k) \<and> truthy (endCursor (pgs ! k))"
      and lst: "\<not> hasNextPage (last pgs)"
      and edg: "\<And>pg n d. pg \<in> set pgs \<Longrightarrow>
                  \<exists>n' d'. syncEdges (edges pg) n d = (Return n', d') \<and> syncLogs d' = syncLogs d"
  shows "length reqs < length pgs \<Longrightarrow> syncLogId \<in> log_id ` set (syncLogs d) \<Longrightarrow>
     \<exists>n' d'. sync_loop syncEdges admin syncLogId reqs cur n d =
        Some (Return n', reqs @ (if truthy cur then cur else None)
                # map endCursor (drop (length reqs) (butlast pgs)), d')
        \<and> map log_id (syncLogs d') = map log_id (syncLogs d)"
proof (induction "length pgs - length reqs" arbitrary: reqs cur n d)
  case 0
  then show ?case by simp
next
  case (Suc m)
  let ?k = "length reqs"
  let ?v = "if truthy cur then cur else None"
  let ?pg = "pgs ! ?k"
  have a: "admin ?k ?v = Return ?pg" using adm Suc.prems by blast
  have "?pg \<in> set pgs" using Suc.prems by simp
  from edg [OF this, of n d] obtain n1 d1
    where e: "syncEdges (edges ?pg) n d = (Return n1, d1)" and l1: "syncLogs d1 = syncLogs d"
    by blast
  from updateSyncLog_present [of syncLogId d1 n1] Suc.prems(2) l1 obtain d2
    where u: "updateSyncLog syncLogId n1 d1 = (Return (), d2)"
      and l2: "map log_id (syncLogs d2) = map log_id (syncLogs d)"
    by auto
  show ?case
  proof (cases "Suc ?k < length pgs")
    case True
    then have t: "hasNextPage ?pg" "truthy (endCursor ?pg)" using nxt by blast+
    have m: "m = length pgs - length (reqs @ [?v])" using Suc.hyps(2) by simp
    have l: "length (reqs @ [?v]) < length pgs" using True by simp
    have p: "syncLogId \<in> log_id ` set (syncLogs d2)"
      using Suc.prems(2) l2 by (metis set_map)
    have dr: "drop ?k (butlast pgs) = ?pg # drop (Suc ?k) (butlast pgs)"
      using True by (simp add: Cons_nth_drop_Suc [symmetric] nth_butlast)
    from Suc.hyps(1) [OF m l p, of "endCursor ?pg" n1]
    show ?thesis using a e u t l2 dr
      by (subst sync_loop.simps) (auto simp add: Let_def)
  next
    case False
    then have s: "Suc ?k = length pgs" using Suc.prems by simp
    then have h: "\<not> hasNextPage ?pg" using lst last_page by metis
    have dr: "drop ?k (butlast pgs) = []" using s by simp
    show ?thesis using a e u h l2 dr
      by (subst sync_loop.simps) (simp add: Let_def)
  qed
qed

lemma upsert_product_logs [simp]: "syncLogs (snd (upsert_product s i p d)) = syncLogs d"
  by (simp add: upsert_product_def split_def Let_def)

lemma upsert_variant_logs [simp]: "syncLogs (snd (upsert_variant s i p d)) = syncLogs d"
  by (simp add: upsert_variant_def split_def Let_def)

lemma upsert_image_logs [simp]: "syncLogs (snd (upsert_image s i p d)) = syncLogs d"
  by (simp add: upsert_image_def split_def Let_def)

lemma syncVariants_logs [simp]: "syncLogs (snd (syncVariants pid vs d)) = syncLogs d"
  by (induction vs arbitrary: d) (auto split: outcome.splits)

lemma syncImages_logs [simp]: "syncLogs (snd (syncImages pid vs d)) = syncLogs d"
  by (induction vs arbitrary: d) (auto split: outcome.splits)

lemma syncSingleProduct_logs [simp]: "syncLogs (snd (syncSingleProduct s p d)) = syncLogs d"
proof (cases "remote_id ''gid://shopify/Product/'' (pn_id p)")
  case (Throw e)
  then show ?thesis by (simp add: syncSingleProduct_def)
next
  case (Return i)
  obtain row d1 where u: "upsert_product s i p d = (row, d1)" by (cases "upsert_product s i p d")
  then have l1: "syncLogs d1 = syncLogs d" using upsert_product_logs [of s i p d] by simp
  obtain r2 d2 where v: "syncVariants (product_id row) (pn_variants p) d1 = (r2, d2)"
    by (cases "syncVariants (product_id row) (pn_variants p) d1")
  then have l2: "syncLogs d2 = syncLogs d1"
    using syncVariants_logs [of "product_id row" "pn_variants p" d1] by simp
  show ?thesis using Return u v l1 l2
    by (cases r2) (simp_all add: syncSingleProduct_def)
qed

lemma syncProductEdges_logs [simp]: "syncLogs (snd (syncProductEdges s ps n d)) = syncLogs d"
proof (induction ps arbitrary: n d)
  case Nil
  then show ?case by simp
next
  case (Cons p ps)
  obtain r1 d1 where u: "syncSingleProduct s p d = (r1, d1)" by (cases "syncSingleProduct s p d")
  then have "syncLogs d1 = syncLogs d" using syncSingleProduct_logs [of s p d] by simp
  then show ?case using u Cons.IH [of "Suc n" d1] by (cases r1) simp_all
qed

lemma syncVariants_returns:
  "list_all (\<lambda>v. returns (remote_id ''gid://shopify/ProductVariant/'' (vn_id v))) vs \<Longrightarrow>
     fst (syncVariants pid vs d) = Return ()"
  by (induction vs arbitrary: d) (auto split: outcome.splits)

lemma syncImages_returns:
  "list_all (\<lambda>v. returns (remote_id ''gid://shopify/ProductImage/'' (in_id v))) vs \<Longrightarrow>
     fst (syncImages pid vs d) = Return ()"
  by (induction vs arbitrary: d) (auto split: outcome.splits)

lemma syncSingleProduct_returns:
  assumes "well_formed_product p"
  shows "fst (syncSingleProduct s p d) = Return ()"
proof -
  from assms obtain i where i: "remote_id ''gid://shopify/Product/'' (pn_id p) = Return i"
    by (cases "remote_id ''gid://shopify/Product/'' (pn_id p)") (auto simp: well_formed_product_def)
  obtain row d1 where u: "upsert_product s i p d = (row, d1)" by (cases "upsert_product s i p d")
  obtain r2 d2 where v: "syncVariants (product_id row) (pn_variants p) d1 = (r2, d2)"
    by (cases "syncVariants (product_id row) (pn_variants p) d1")
  have "r2 = Return ()"
    using syncVariants_returns [of "pn_variants p" "product_id row" d1] assms v
    by (simp add: well_formed_product_def)
  then show ?thesis
    using i u v syncImages_returns [of "pn_images p" "product_id row" d2] assms
    by (simp add: syncSingleProduct_def well_formed_product_def)
qed

lemma syncProductEdges_returns:
  "list_all well_formed_product ps \<Longrightarrow> fst (syncProductEdges s ps n d) = Return (n + length ps)"
proof (induction ps arbitrary: n d)
  case Nil
  then show ?case by simp
next
  case (Cons p ps)
  obtain r1 d1 where u: "syncSingleProduct s p d = (r1, d1)" by (cases "syncSingleProduct s p d")
  then have "r1 = Return ()" using syncSingleProduct_returns [of p s d] Cons.prems by simp
  then show ?case using u Cons.IH [of "Suc n" d1] Cons.prems by simp
qed

lemma createSyncLog_present:
  "createSyncLog s e t d = (row, d0) \<Longrightarrow> log_id row \<in> log_id ` set (syncLogs d0)"
  by (auto simp: createSyncLog_def Let_def)

lemma completeSyncLog_present:
  assumes "syncLogId \<in> log_id ` set (syncLogs d)"
  shows "\<exists>d'. completeSyncLog syncLogId n m d = (Return (), d')"
  using assms by (auto simp: completeSyncLog_def syncLog_update_def)

lemma sync_entity_bound:
  assumes adm: "\<forall>k<length pgs. \<forall>c. admin k c = Return (pgs ! k)"
      and nxt: "\<forall>k. Suc k < length pgs \<longrightarrow> hasNextPage (pgs ! k) \<and> truthy (endCursor (pgs ! k))"
      and ne: "pgs \<noteq> []"
      and lst: "\<not> hasNextPage (last pgs)"
  shows "\<exists>r reqs d'. sync_entity ety syncEdges admin shopId d = Some (r, reqs, d')
        \<and> length reqs \<le> length pgs \<and> (returns r \<longrightarrow> length reqs = length pgs)"
proof -
  obtain row d0 where c: "createSyncLog shopId ety ''initial'' d = (row, d0)"
    by (cases "createSyncLog shopId ety ''initial'' d")
  have "length ([] :: string option list) < length pgs" using ne by simp
  from sync_loop_bound [OF adm nxt lst this, of syncEdges "log_id row" None 0 d0]
  obtain r reqs d1 where
    l: "sync_loop syncEdges admin (log_id row) [] None 0 d0 = Some (r, reqs, d1)"
    and b: "length reqs \<le> length pgs" "returns r \<longrightarrow> length reqs = length pgs"
    by blast
  show ?thesis
  proof (cases r)
    case (Throw e)
    then show ?thesis using c l b
      by (cases "failSyncLog (log_id row) (message e) d1"; cases "fst (failSyncLog (log_id row) (message e) d1)")
         (auto simp: sync_entity_def)
  next
    case (Return n)
    obtain r2 d2 where k: "completeSyncLog (log_id row) n n d1 = (r2, d2)"
      by (cases "completeSyncLog (log_id row) n n d1")
    show ?thesis
    proof (cases r2)
      case R: (Return u)
      then show ?thesis using c l b Return k by (auto simp: sync_entity_def)
    next
      case T: (Throw e)
      then show ?thesis using c l b Return k
        by (cases "failSyncLog (log_id row) (message e) d2"; cases "fst (failSyncLog (log_id row) (message e) d2)")
           (auto simp: sync_entity_def)
    qed
  qed
qed

lemma sync_entity_exact:
  assumes adm: "\<forall>k<length pgs. \<forall>c. admin k c = Return (pgs ! k)"
      and nxt: "\<forall>k. Suc k < length pgs \<longrightarrow> hasNextPage (pgs ! k) \<and> truthy (endCursor (pgs ! k))"
      and ne: "pgs \<noteq> []"
      and lst: "\<not> hasNextPage (last pgs)"
      and edg: "\<And>pg n d. pg \<in> set pgs \<Longrightarrow>
                  \<exists>n' d'. syncEdges (edges pg) n d = (Return n', d') \<and> syncLogs d' = syncLogs d"
  shows "\<exists>d'. sync_entity ety syncEdges admin shopId d =
           Some (Return (), None # map endCursor (butlast pgs), d')"
proof -
  obtain row d0 where c: "createSyncLog shopId ety ''initial'' d = (row, d0)"
    by (cases "createSyncLog shopId ety ''initial'' d")
  have p0: "log_id row \<in> log_id ` set (syncLogs d0)" using c by (rule createSyncLog_present)
  have "length ([] :: string option list) < length pgs" using ne by simp
  from sync_loop_exact [where syncEdges = syncEdges and cur = None and n = 0,
      OF adm nxt lst edg this p0]
  obtain n d1 where
    l: "sync_loop syncEdges admin (log_id row) [] None 0 d0
          = Some (Return n, None # map endCursor (butlast pgs), d1)"
    and i: "map log_id (syncLogs d1) = map log_id (syncLogs d0)"
    by auto
  have "log_id row \<in> log_id ` set (syncLogs d1)" using p0 i by (metis set_map)
  from completeSyncLog_present [OF this, of n n] obtain d2
    where k: "completeSyncLog (log_id row) n n d1 = (Return (), d2)" by blast
  show ?thesis using c l k by (simp add: sync_entity_def)
qed

text \<open>
  Claim C9. Against a remote that answers the first N-1 page requests with
  \<open>hasNextPage: true\<close> and a non-empty end cursor and the Nth with \<open>hasNextPage: false\<close>,
  the product sync ends, never sends more than N requests, and sends exactly N when it
  returns. When no record of the pages makes the sync throw, it returns, and the requests
  are the first one without a cursor followed by the end cursors of pages 1 to N-1, in order.
\<close>

theorem pagination_stops_after_last_page:
  assumes "\<forall>k<length pgs. \<forall>c. admin k c = Return (pgs ! k)"
      and "\<forall>k. Suc k < length pgs \<longrightarrow> hasNextPage (pgs ! k) \<and> truthy (endCursor (pgs ! k))"
      and "pgs \<noteq> []"
      and "\<not> hasNextPage (last pgs)"
  shows "(\<exists>r reqs d'. syncProducts admin shopId d = Some (r, reqs, d')
            \<and> length reqs \<le> length pgs \<and> (returns r \<longrightarrow> length reqs = length pgs))
       \<and> ((\<forall>pg \<in> set pgs. list_all well_formed_product (edges pg)) \<longrightarrow>
            (\<exists>d'. syncProducts admin shopId d =
                     Some (Return (), None # map endCursor (butlast pgs), d')))"
proof (intro conjI impI)
  show "\<exists>r reqs d'. syncProducts admin shopId d = Some (r, reqs, d')
            \<and> length reqs \<le> length pgs \<and> (returns r \<longrightarrow> length reqs = length pgs)"
    unfolding syncProducts_def using assms by (rule sync_entity_bound)
next
  assume wf: "\<forall>pg \<in> set pgs. list_all well_formed_product (edges pg)"
  have edg: "\<And>pg n d. pg \<in> set pgs \<Longrightarrow>
      \<exists>n' d'. syncProductEdges shopId (edges pg) n d = (Return n', d') \<and> syncLogs d' = syncLogs d"
  proof -
    fix pg n d assume "pg \<in> set pgs"
    then have "list_all well_formed_product (edges pg)" using wf by blast
    from syncProductEdges_returns [OF this, of shopId n d]
      syncProductEdges_logs [of shopId "edges pg" n d]
    show "\<exists>n' d'. syncProductEdges shopId (edges pg) n d = (Return n', d') \<and> syncLogs d' = syncLogs d"
      by (cases "syncProductEdges shopId (edges pg) n d") auto
  qed
  show "\<exists>d'. syncProducts admin shopId d = Some (Return (), None # map endCursor (butlast pgs), d')"
    unfolding syncProducts_def using assms edg by (rule sync_entity_exact)
qed

theorem pagination_stops_after_last_page_witness:
  "list_all (\<lambda>pg. list_all well_formed_product (edges pg)) two_product_pages
   \<and> length two_product_pages = 2
   \<and> (\<exists>d'. syncProducts (scripted two_product_pages) 1 empty_db
              = Some (Return (), [None, Some ''cursor-1''], d'))"
proof -
  have a: "\<forall>k<length two_product_pages. \<forall>c.
      scripted two_product_pages k c = Return (two_product_pages ! k)"
    by (simp add: scripted_def)
  have n: "\<forall>k. Suc k < length two_product_pages \<longrightarrow>
      hasNextPage (two_product_pages ! k) \<and> truthy (endCursor (two_product_pages ! k))"
    by (simp add: two_product_pages_def)
  have ne: "two_product_pages \<noteq> []" and l: "\<not> hasNextPage (last two_product_pages)"
    by (simp_all add: two_product_pages_def)
  have wf: "list_all (\<lambda>pg. list_all well_formed_product (edges pg)) two_product_pages"
    by (simp add: two_product_pages_def well_formed_product_def a_product_def BigInt_eval)
  then have wf': "\<forall>pg \<in> set two_product_pages. list_all well_formed_product (edges pg)"
    by (simp add: list_all_iff)
  from pagination_stops_after_last_page [OF a n ne l, of 1 empty_db] wf'
  have "\<exists>d'. syncProducts (scripted two_product_pages) 1 empty_db
          = Some (Return (), None # map endCursor (butlast two_product_pages), d')"
    by blast
  then show ?thesis using wf by (simp add: two_product_pages_def)
qed

section \<open>Theorems: collection links\<close>




lemma find_append_if:
  "find P (xs @ ys) = (case find P xs of None \<Rightarrow> find P ys | Some x \<Rightarrow> Some x)"
  by (induction xs) auto

lemma find_map_update:
  assumes "\<And>x. P (u x) = P x"
  shows "find P (map (\<lambda>x. if P x then u x else x) xs) = map_option u (find P xs)"
  using assms by (induction xs) auto

lemma upsert_find:
  assumes "\<And>x. matches (update x) = matches x" and "matches create"
  shows "find matches (snd (upsert matches update create rows))
           = Some (fst (upsert matches update create rows))"
proof (cases "find matches rows")
  case None
  then show ?thesis using assms(2) by (simp add: upsert_def find_append_if)
next
  case (Some r)
  then show ?thesis using find_map_update [of matches update rows, OF assms(1)]
    by (simp add: upsert_def)
qed





lemmas store_eval =
  syncSingleProduct_def upsert_product_def upsert_variant_def upsert_image_def upsert_def
  fresh_id_def empty_db_def a_product_def toLowerCase_def
  syncSingleCollection_def upsert_collection_def collectionProduct_deleteMany_def
  collectionProduct_create_def product_findUnique_def


section \<open>Theorems: tasks\<close>

text \<open>
  The tasks of the product and collection syncs: what they leave alone, how they end and
  how many operations they take; and what holds of two syncs under every schedule.
\<close>

lemma upsert_product_shops [simp]: "shops (snd (upsert_product s i p d)) = shops d"
  by (simp add: upsert_product_def split_def Let_def)

lemma upsert_variant_shops [simp]: "shops (snd (upsert_variant s i p d)) = shops d"
  by (simp add: upsert_variant_def split_def Let_def)

lemma upsert_image_shops [simp]: "shops (snd (upsert_image s i p d)) = shops d"
  by (simp add: upsert_image_def split_def Let_def)

lemma fold_max_ge: "a \<le> fold max ids a \<and> (\<forall>x \<in> set ids. x \<le> fold max ids (a::nat))"
proof (induction ids arbitrary: a)
  case Nil
  then show ?case by simp
next
  case (Cons y ys)
  from Cons.IH [of "max y a"] show ?case by auto
qed

lemma fresh_id_gt: "x \<in> set ids \<Longrightarrow> x < fresh_id ids"
  using fold_max_ge [of 0 ids] by (auto simp: fresh_id_def)

lemma syncLog_update_last:
  assumes "\<forall>a \<in> set L. log_id a \<noteq> i" and "log_id row = i" and "syncLogs d = L @ [row]"
  shows "syncLog_update i f d = (Return (), d\<lparr> syncLogs := L @ [f row] \<rparr>)"
proof -
  have "map (\<lambda>r. if log_id r = i then f r else r) L = L"
    using assms(1) by (induction L) auto
  then show ?thesis using assms by (simp add: syncLog_update_def)
qed

lemma syncShopData_shop:
  assumes "syncShopData shopDomain shopQuery d = (Return shopId, d0)"
  shows "\<exists>row \<in> set (shops d0). shop_domain row = shopDomain"
proof -
  from assms obtain shop where q: "shopQuery = Return shop"
    by (cases shopQuery) (auto simp: syncShopData_def)
  from assms q obtain i where i: "remote_id ''gid://shopify/Shop/'' (sn_id shop) = Return i"
    by (cases "remote_id ''gid://shopify/Shop/'' (sn_id shop)") (auto simp: syncShopData_def)
  let ?u = "upsert_shop shopDomain i shop d"
  have "find (\<lambda>r. shop_domain r = shopDomain) (shops (snd ?u)) = Some (fst ?u)"
    unfolding upsert_shop_def split_def Let_def
    by (simp add: upsert_find)
  then have "\<exists>row \<in> set (shops (snd ?u)). shop_domain row = shopDomain"
    by (auto simp: find_Some_iff)
  moreover have "shops d0 = shops (snd ?u)"
    using assms q i
    by (auto simp: syncShopData_def split_def Let_def createSyncLog_def completeSyncLog_def
        syncLog_update_def split: outcome.splits prod.splits if_splits)
  ultimately show ?thesis by simp
qed

lemma syncShopData_logs:
  assumes "syncShopData shopDomain shopQuery d = (Return shopId, d0)"
  shows "\<exists>shopRow. syncLogs d0 = syncLogs d @ [shopRow]"
proof -
  from assms obtain shop where q: "shopQuery = Return shop"
    by (cases shopQuery) (auto simp: syncShopData_def)
  from assms q obtain i where i: "remote_id ''gid://shopify/Shop/'' (sn_id shop) = Return i"
    by (cases "remote_id ''gid://shopify/Shop/'' (sn_id shop)") (auto simp: syncShopData_def)
  let ?u = "upsert_shop shopDomain i shop d"
  let ?c = "createSyncLog (shop_id (fst ?u)) ''shop'' ''initial'' (snd ?u)"
  have l0: "syncLogs (snd ?u) = syncLogs d"
    by (simp add: upsert_shop_def split_def Let_def)
  have others: "\<forall>a \<in> set (syncLogs d). log_id a \<noteq> fresh_id (map log_id (syncLogs d))"
    using fresh_id_gt [of _ "map log_id (syncLogs d)"] by fastforce
  have l1: "syncLogs (snd ?c) = syncLogs d @ [fst ?c]"
    and id: "log_id (fst ?c) = fresh_id (map log_id (syncLogs d))"
    using l0 by (simp_all add: createSyncLog_def Let_def)
  from syncLog_update_last [OF others id l1]
  have "\<And>f. syncLog_update (log_id (fst ?c)) f (snd ?c)
           = (Return (), (snd ?c)\<lparr> syncLogs := syncLogs d @ [f (fst ?c)] \<rparr>)"
    using id by simp
  then show ?thesis using assms q i
    by (auto simp: syncShopData_def split_def Let_def completeSyncLog_def)
qed

lemma syncProductEdges_throws:
  assumes "list_all well_formed_product good"
      and "\<And>db. fst (syncSingleProduct s bad db) = Throw e"
  shows "fst (syncProductEdges s (good @ bad # rest) n d) = Throw e"
  using assms(1)
proof (induction good arbitrary: n d)
  case Nil
  obtain r1 d1 where u: "syncSingleProduct s bad d = (r1, d1)" by (cases "syncSingleProduct s bad d")
  then have "r1 = Throw e" using assms(2) [of d] by simp
  then show ?case using u by simp
next
  case (Cons p ps)
  obtain r1 d1 where u: "syncSingleProduct s p d = (r1, d1)" by (cases "syncSingleProduct s p d")
  then have "r1 = Return ()" using syncSingleProduct_returns [of p s d] Cons.prems by simp
  then show ?case using u Cons.IH [of "Suc n" d1] Cons.prems by simp
qed

lemma run_andThen:
  "run (andThen t k) d =
     (case run t d of (Return x, d') \<Rightarrow> run (k x) d' | (Throw e, d') \<Rightarrow> (Throw e, d'))"
  by (induction t arbitrary: d) (auto split: outcome.splits)

lemma run_await: "run (await operation) d = operation d"
  by (simp add: await_def)

lemma run_syncVariants: "run (syncVariants_async p vs) d = syncVariants p vs d"
  by (induction vs arbitrary: d)
     (auto simp: run_andThen run_await returning_def split: outcome.splits prod.splits)

lemma run_syncImages: "run (syncImages_async p vs) d = syncImages p vs d"
  by (induction vs arbitrary: d)
     (auto simp: run_andThen run_await returning_def split: outcome.splits prod.splits)

lemma run_syncSingleProduct: "run (syncSingleProduct_async s p) d = syncSingleProduct s p d"
  by (auto simp: syncSingleProduct_async_def syncSingleProduct_def run_andThen run_await
      returning_def run_syncVariants run_syncImages split: outcome.splits prod.splits)

lemma run_syncProductEdges: "run (syncProductEdges_async s es n) d = syncProductEdges s es n d"
  by (induction es arbitrary: n d)
     (auto simp: run_andThen run_syncSingleProduct split: outcome.splits prod.splits)

lemma run_syncCollectionProducts:
  "run (syncCollectionProducts_async cid gids) d = syncCollectionProducts cid gids d"
  by (induction gids arbitrary: d)
     (auto simp: run_andThen run_await split: outcome.splits prod.splits option.splits)

lemma run_syncSingleCollection:
  "run (syncSingleCollection_async s c) d = syncSingleCollection s c d"
  by (auto simp: syncSingleCollection_async_def syncSingleCollection_def run_andThen run_await
      returning_def run_syncCollectionProducts Let_def split: outcome.splits prod.splits)

lemma run_syncCollectionEdges:
  "run (syncCollectionEdges_async s es n) d = syncCollectionEdges s es n d"
  by (induction es arbitrary: n d)
     (auto simp: run_andThen run_syncSingleCollection split: outcome.splits prod.splits)

lemma ends_mono: "ends Q t \<Longrightarrow> (\<And>r. Q r \<Longrightarrow> Q' r) \<Longrightarrow> ends Q' t"
  by (induction rule: ends.induct) (auto intro: ends.intros)

lemma ends_andThen:
  assumes "ends Q1 t"
      and "\<And>x. Q1 (Return x) \<Longrightarrow> ends Q (k x)"
      and "\<And>e. Q1 (Throw e) \<Longrightarrow> Q (Throw e)"
  shows "ends Q (andThen t k)"
  using assms(1)
proof (induction rule: ends.induct)
  case (ends_Done r)
  then show ?case using assms(2,3) by (cases r) (auto intro: ends.intros)
next
  case (ends_Await effect rest)
  then show ?case by (auto intro: ends.intros)
qed

lemma ends_await:
  assumes "\<And>d. syncLogs (snd (operation d)) = syncLogs d \<and> shops (snd (operation d)) = shops d
             \<and> Q (fst (operation d))"
  shows "ends Q (await operation)"
  unfolding await_def using assms by (auto intro!: ends.intros)

lemma bounded_mono: "bounded n t \<Longrightarrow> n \<le> m \<Longrightarrow> bounded m t"
proof (induction arbitrary: m rule: bounded.induct)
  case (bounded_Done n r)
  show ?case by (rule bounded.intros)
next
  case (bounded_Await n rest effect)
  then obtain m' where m: "m = Suc m'" and le: "n \<le> m'" by (cases m) auto
  show ?case unfolding m using bounded_Await.IH le by (auto intro: bounded.intros)
qed

lemma bounded_andThen:
  assumes "bounded n t" and "\<And>x. bounded m (k x)"
  shows "bounded (n + m) (andThen t k)"
  using assms(1)
proof (induction rule: bounded.induct)
  case (bounded_Done n r)
  show ?case
  proof (cases r)
    case (Return x)
    then show ?thesis using bounded_mono [OF assms(2) [of x], of "n + m"] by simp
  next
    case (Throw e)
    then show ?thesis by (simp add: bounded.intros)
  qed
next
  case (bounded_Await n rest effect)
  then show ?case by (auto intro: bounded.intros)
qed

lemma bounded_await: "bounded (Suc 0) (await operation)"
  unfolding await_def by (auto intro: bounded.intros)

lemma returning_frame:
  "syncLogs (snd (returning operation d)) = syncLogs (snd (operation d))"
  "shops (snd (returning operation d)) = shops (snd (operation d))"
  "fst (returning operation d) = Return (fst (operation d))"
  by (simp_all add: returning_def split_def)

lemma syncVariants_async_ends:
  "ends (\<lambda>r. \<forall>p' d'. r = fst (syncVariants p' vs d')) (syncVariants_async p vs)"
proof (induction vs)
  case Nil
  show ?case by (simp add: ends.intros)
next
  case (Cons v vs)
  show ?case
  proof (cases "remote_id ''gid://shopify/ProductVariant/'' (vn_id v)")
    case (Throw e)
    then show ?thesis by (simp add: ends.intros)
  next
    case (Return i)
    have "ends (\<lambda>r. \<forall>p' d'. r = fst (syncVariants p' (v # vs) d'))
        (andThen (await (returning (upsert_variant p i v))) (\<lambda>_. syncVariants_async p vs))"
    proof (rule ends_andThen [where ?Q1.0 = "\<lambda>r. \<exists>x. r = Return x"])
      show "ends (\<lambda>r. \<exists>x. r = Return x) (await (returning (upsert_variant p i v)))"
        by (rule ends_await) (simp add: returning_frame)
    next
      fix x
      show "ends (\<lambda>r. \<forall>p' d'. r = fst (syncVariants p' (v # vs) d')) (syncVariants_async p vs)"
        by (rule ends_mono [OF Cons.IH]) (simp add: Return)
    next
      fix e assume "\<exists>x. Throw e = Return (x :: variant_row)"
      then show "\<forall>p' d'. Throw e = fst (syncVariants p' (v # vs) d')" by simp
    qed
    then show ?thesis using Return by simp
  qed
qed

lemma syncImages_async_ends:
  "ends (\<lambda>r. \<forall>p' d'. r = fst (syncImages p' vs d')) (syncImages_async p vs)"
proof (induction vs)
  case Nil
  show ?case by (simp add: ends.intros)
next
  case (Cons v vs)
  show ?case
  proof (cases "remote_id ''gid://shopify/ProductImage/'' (in_id v)")
    case (Throw e)
    then show ?thesis by (simp add: ends.intros)
  next
    case (Return i)
    have "ends (\<lambda>r. \<forall>p' d'. r = fst (syncImages p' (v # vs) d'))
        (andThen (await (returning (upsert_image p i v))) (\<lambda>_. syncImages_async p vs))"
    proof (rule ends_andThen [where ?Q1.0 = "\<lambda>r. \<exists>x. r = Return x"])
      show "ends (\<lambda>r. \<exists>x. r = Return x) (await (returning (upsert_image p i v)))"
        by (rule ends_await) (simp add: returning_frame)
    next
      fix x
      show "ends (\<lambda>r. \<forall>p' d'. r = fst (syncImages p' (v # vs) d')) (syncImages_async p vs)"
        by (rule ends_mono [OF Cons.IH]) (simp add: Return)
    next
      fix e assume "\<exists>x. Throw e = Return (x :: image_row)"
      then show "\<forall>p' d'. Throw e = fst (syncImages p' (v # vs) d')" by simp
    qed
    then show ?thesis using Return by simp
  qed
qed

lemma syncSingleProduct_async_ends:
  "ends (\<lambda>r. \<forall>d'. r = fst (syncSingleProduct s p d')) (syncSingleProduct_async s p)"
proof (cases "remote_id ''gid://shopify/Product/'' (pn_id p)")
  case (Throw e)
  then show ?thesis by (simp add: syncSingleProduct_async_def syncSingleProduct_def ends.intros)
next
  case (Return i)
  let ?Q = "\<lambda>r. \<forall>d'. r = fst (syncSingleProduct s p d')"
  have "ends ?Q
      (andThen (await (returning (upsert_product s i p)))
        (\<lambda>product. andThen (syncVariants_async (product_id product) (pn_variants p))
                      (\<lambda>_. syncImages_async (product_id product) (pn_images p))))"
  proof (rule ends_andThen [where ?Q1.0 = "\<lambda>r. \<exists>x. r = Return x"])
    show "ends (\<lambda>r. \<exists>x. r = Return x) (await (returning (upsert_product s i p)))"
      by (rule ends_await) (simp add: returning_frame)
  next
    fix x :: product_row
    show "ends ?Q (andThen (syncVariants_async (product_id x) (pn_variants p))
                      (\<lambda>_. syncImages_async (product_id x) (pn_images p)))"
    proof (rule ends_andThen [OF syncVariants_async_ends])
      fix u :: unit
      assume v: "\<forall>p' d'. Return u = fst (syncVariants p' (pn_variants p) d')"
      show "ends ?Q (syncImages_async (product_id x) (pn_images p))"
      proof (rule ends_mono [OF syncImages_async_ends])
        fix r assume r: "\<forall>p' d'. r = fst (syncImages p' (pn_images p) d')"
        show "?Q r"
        proof
          fix d'
          obtain row d1 where up: "upsert_product s i p d' = (row, d1)"
            by (cases "upsert_product s i p d'")
          obtain r2 d2 where sv: "syncVariants (product_id row) (pn_variants p) d1 = (r2, d2)"
            by (cases "syncVariants (product_id row) (pn_variants p) d1")
          then have "r2 = Return u" using v [rule_format, of "product_id row" d1] by simp
          then show "r = fst (syncSingleProduct s p d')"
            using Return up sv r [rule_format, of "product_id row" d2]
            by (simp add: syncSingleProduct_def)
        qed
      qed
    next
      fix e
      assume v: "\<forall>p' d'. Throw e = fst (syncVariants p' (pn_variants p) d')"
      show "?Q (Throw e)"
      proof
        fix d'
        obtain row d1 where up: "upsert_product s i p d' = (row, d1)"
          by (cases "upsert_product s i p d'")
        obtain r2 d2 where sv: "syncVariants (product_id row) (pn_variants p) d1 = (r2, d2)"
          by (cases "syncVariants (product_id row) (pn_variants p) d1")
        then have "r2 = Throw e" using v [rule_format, of "product_id row" d1] by simp
        then show "Throw e = fst (syncSingleProduct s p d')"
          using Return up sv by (simp add: syncSingleProduct_def)
      qed
    qed
  next
    fix e assume "\<exists>x. Throw e = Return (x :: product_row)"
    then show "?Q (Throw e)" by simp
  qed
  then show ?thesis using Return by (simp add: syncSingleProduct_async_def)
qed

lemma syncProductEdges_async_ends:
  "ends (\<lambda>r. \<forall>d'. r = fst (syncProductEdges s es n d')) (syncProductEdges_async s es n)"
proof (induction es arbitrary: n)
  case Nil
  show ?case by (simp add: ends.intros)
next
  case (Cons p ps)
  let ?Q = "\<lambda>r. \<forall>d'. r = fst (syncProductEdges s (p # ps) n d')"
  have "ends ?Q (andThen (syncSingleProduct_async s p) (\<lambda>_. syncProductEdges_async s ps (Suc n)))"
  proof (rule ends_andThen [OF syncSingleProduct_async_ends])
    fix u :: unit
    assume v: "\<forall>d'. Return u = fst (syncSingleProduct s p d')"
    show "ends ?Q (syncProductEdges_async s ps (Suc n))"
    proof (rule ends_mono [OF Cons.IH])
      fix r assume r: "\<forall>d'. r = fst (syncProductEdges s ps (Suc n) d')"
      show "?Q r"
      proof
        fix d'
        obtain r1 d1 where sp: "syncSingleProduct s p d' = (r1, d1)"
          by (cases "syncSingleProduct s p d'")
        then have "r1 = Return u" using v [rule_format, of d'] by simp
        then show "r = fst (syncProductEdges s (p # ps) n d')"
          using sp r [rule_format, of d1] by simp
      qed
    qed
  next
    fix e
    assume v: "\<forall>d'. Throw e = fst (syncSingleProduct s p d')"
    show "?Q (Throw e)"
    proof
      fix d'
      obtain r1 d1 where sp: "syncSingleProduct s p d' = (r1, d1)"
        by (cases "syncSingleProduct s p d'")
      then have "r1 = Throw e" using v [rule_format, of d'] by simp
      then show "Throw e = fst (syncProductEdges s (p # ps) n d')" using sp by simp
    qed
  qed
  then show ?case by simp
qed

lemma syncCollectionProducts_async_ends:
  "ends (\<lambda>r. True) (syncCollectionProducts_async cid gids)"
proof (induction gids)
  case Nil
  show ?case by (simp add: ends.intros)
next
  case (Cons g gs)
  show ?case
  proof (cases "remote_id ''gid://shopify/Product/'' g")
    case (Throw e)
    then show ?thesis by (simp add: ends.intros)
  next
    case (Return i)
    have "ends (\<lambda>r. True)
       (andThen (await (\<lambda>d. (Return (product_findUnique i d), d)))
            (\<lambda>found.
               case found of
                 None \<Rightarrow> syncCollectionProducts_async cid gs
               | Some product \<Rightarrow>
                   andThen (await (collectionProduct_create cid (product_id product)))
                     (\<lambda>_. syncCollectionProducts_async cid gs)))"
    proof (rule ends_andThen [where ?Q1.0 = "\<lambda>r. True"])
      show "ends (\<lambda>r. True) (await (\<lambda>d. (Return (product_findUnique i d), d)))"
        by (rule ends_await) simp
    next
      fix found :: "product_row option"
      show "ends (\<lambda>r. True)
         (case found of
            None \<Rightarrow> syncCollectionProducts_async cid gs
          | Some product \<Rightarrow>
              andThen (await (collectionProduct_create cid (product_id product)))
                (\<lambda>_. syncCollectionProducts_async cid gs))"
      proof (cases found)
        case None
        then show ?thesis using Cons.IH by simp
      next
        case (Some product)
        have "ends (\<lambda>r. True) (andThen (await (collectionProduct_create cid (product_id product)))
                (\<lambda>_. syncCollectionProducts_async cid gs))"
        proof (rule ends_andThen [where ?Q1.0 = "\<lambda>r. True"])
          show "ends (\<lambda>r. True) (await (collectionProduct_create cid (product_id product)))"
            by (rule ends_await) (simp add: collectionProduct_create_def Let_def)
        qed (simp_all add: Cons.IH)
        then show ?thesis using Some by simp
      qed
    qed simp
    then show ?thesis using Return by simp
  qed
qed

lemma syncSingleCollection_async_ends:
  "ends (\<lambda>r. True) (syncSingleCollection_async s c)"
proof (cases "remote_id ''gid://shopify/Collection/'' (cn_id c)")
  case (Throw e)
  then show ?thesis by (simp add: syncSingleCollection_async_def ends.intros)
next
  case (Return i)
  have "ends (\<lambda>r. True)
     (andThen (await (returning (upsert_collection s i c)))
            (\<lambda>collection.
               andThen (await (\<lambda>d. (Return (), collectionProduct_deleteMany (collection_id collection) d)))
                 (\<lambda>_. syncCollectionProducts_async (collection_id collection) (cn_products c))))"
  proof (rule ends_andThen [where ?Q1.0 = "\<lambda>r. True"])
    show "ends (\<lambda>r. True) (await (returning (upsert_collection s i c)))"
      by (rule ends_await) (simp add: returning_frame upsert_collection_def split_def Let_def)
  next
    fix collection :: collection_row
    show "ends (\<lambda>r. True)
        (andThen (await (\<lambda>d. (Return (), collectionProduct_deleteMany (collection_id collection) d)))
                 (\<lambda>_. syncCollectionProducts_async (collection_id collection) (cn_products c)))"
    proof (rule ends_andThen [where ?Q1.0 = "\<lambda>r. True"])
      show "ends (\<lambda>r. True)
          (await (\<lambda>d. (Return (), collectionProduct_deleteMany (collection_id collection) d)))"
        by (rule ends_await) (simp add: collectionProduct_deleteMany_def)
    qed (simp_all add: syncCollectionProducts_async_ends)
  qed simp
  then show ?thesis using Return by (simp add: syncSingleCollection_async_def)
qed

lemma syncCollectionEdges_async_ends:
  "ends (\<lambda>r. True) (syncCollectionEdges_async s es n)"
proof (induction es arbitrary: n)
  case Nil
  show ?case by (simp add: ends.intros)
next
  case (Cons c cs)
  have "ends (\<lambda>r. True)
      (andThen (syncSingleCollection_async s c) (\<lambda>_. syncCollectionEdges_async s cs (Suc n)))"
    by (rule ends_andThen [OF syncSingleCollection_async_ends]) (simp_all add: Cons.IH)
  then show ?case by simp
qed

lemma syncVariants_async_bounded: "bounded (length vs) (syncVariants_async p vs)"
proof (induction vs)
  case Nil
  show ?case by (simp add: bounded.intros)
next
  case (Cons v vs)
  show ?case
  proof (cases "remote_id ''gid://shopify/ProductVariant/'' (vn_id v)")
    case (Throw e)
    then show ?thesis by (simp add: bounded.intros)
  next
    case (Return i)
    have "bounded (Suc 0 + length vs)
        (andThen (await (returning (upsert_variant p i v))) (\<lambda>_. syncVariants_async p vs))"
      by (rule bounded_andThen [OF bounded_await]) (rule Cons.IH)
    then show ?thesis using Return by simp
  qed
qed

lemma syncImages_async_bounded: "bounded (length vs) (syncImages_async p vs)"
proof (induction vs)
  case Nil
  show ?case by (simp add: bounded.intros)
next
  case (Cons v vs)
  show ?case
  proof (cases "remote_id ''gid://shopify/ProductImage/'' (in_id v)")
    case (Throw e)
    then show ?thesis by (simp add: bounded.intros)
  next
    case (Return i)
    have "bounded (Suc 0 + length vs)
        (andThen (await (returning (upsert_image p i v))) (\<lambda>_. syncImages_async p vs))"
      by (rule bounded_andThen [OF bounded_await]) (rule Cons.IH)
    then show ?thesis using Return by simp
  qed
qed

lemma syncSingleProduct_async_bounded:
  "bounded (1 + length (pn_variants p) + length (pn_images p)) (syncSingleProduct_async s p)"
proof (cases "remote_id ''gid://shopify/Product/'' (pn_id p)")
  case (Throw e)
  then show ?thesis by (simp add: syncSingleProduct_async_def bounded.intros)
next
  case (Return i)
  have "bounded (Suc 0 + (length (pn_variants p) + length (pn_images p)))
      (andThen (await (returning (upsert_product s i p)))
        (\<lambda>product. andThen (syncVariants_async (product_id product) (pn_variants p))
                      (\<lambda>_. syncImages_async (product_id product) (pn_images p))))"
    by (intro bounded_andThen bounded_await syncVariants_async_bounded syncImages_async_bounded)
  then show ?thesis using Return by (simp add: syncSingleProduct_async_def)
qed

lemma syncProductEdges_async_bounded:
  "bounded (product_awaits es) (syncProductEdges_async s es n)"
proof (induction es arbitrary: n)
  case Nil
  show ?case by (simp add: bounded.intros)
next
  case (Cons p ps)
  have "bounded ((1 + length (pn_variants p) + length (pn_images p)) + product_awaits ps)
      (andThen (syncSingleProduct_async s p) (\<lambda>_. syncProductEdges_async s ps (Suc n)))"
    by (intro bounded_andThen syncSingleProduct_async_bounded Cons.IH)
  then show ?case by (simp add: product_awaits_def)
qed

lemma syncCollectionProducts_async_bounded:
  "bounded (2 * length gids) (syncCollectionProducts_async cid gids)"
proof (induction gids)
  case Nil
  show ?case by (simp add: bounded.intros)
next
  case (Cons g gs)
  show ?case
  proof (cases "remote_id ''gid://shopify/Product/'' g")
    case (Throw e)
    then show ?thesis by (simp add: bounded.intros)
  next
    case (Return i)
    have k: "bounded (Suc 0 + 2 * length gs)
         (case found of
            None \<Rightarrow> syncCollectionProducts_async cid gs
          | Some product \<Rightarrow>
              andThen (await (collectionProduct_create cid (product_id product)))
                (\<lambda>_. syncCollectionProducts_async cid gs))" for found :: "product_row option"
    proof (cases found)
      case None
      then show ?thesis using bounded_mono [OF Cons.IH, of "Suc 0 + 2 * length gs"] by simp
    next
      case (Some product)
      have "bounded (Suc 0 + 2 * length gs)
          (andThen (await (collectionProduct_create cid (product_id product)))
                (\<lambda>_. syncCollectionProducts_async cid gs))"
        by (intro bounded_andThen bounded_await Cons.IH)
      then show ?thesis using Some by simp
    qed
    have "bounded (Suc 0 + (Suc 0 + 2 * length gs))
       (andThen (await (\<lambda>d. (Return (product_findUnique i d), d)))
            (\<lambda>found.
               case found of
                 None \<Rightarrow> syncCollectionProducts_async cid gs
               | Some product \<Rightarrow>
                   andThen (await (collectionProduct_create cid (product_id product)))
                     (\<lambda>_. syncCollectionProducts_async cid gs)))"
      by (rule bounded_andThen [OF bounded_await]) (rule k)
    then show ?thesis using Return by simp
  qed
qed

lemma syncSingleCollection_async_bounded:
  "bounded (2 + 2 * length (cn_products c)) (syncSingleCollection_async s c)"
proof (cases "remote_id ''gid://shopify/Collection/'' (cn_id c)")
  case (Throw e)
  then show ?thesis by (simp add: syncSingleCollection_async_def bounded.intros)
next
  case (Return i)
  have "bounded (Suc 0 + (Suc 0 + 2 * length (cn_products c)))
     (andThen (await (returning (upsert_collection s i c)))
            (\<lambda>collection.
               andThen (await (\<lambda>d. (Return (), collectionProduct_deleteMany (collection_id collection) d)))
                 (\<lambda>_. syncCollectionProducts_async (collection_id collection) (cn_products c))))"
    by (intro bounded_andThen bounded_await syncCollectionProducts_async_bounded)
  then show ?thesis using Return by (simp add: syncSingleCollection_async_def)
qed

lemma syncCollectionEdges_async_bounded:
  "bounded (collection_awaits es) (syncCollectionEdges_async s es n)"
proof (induction es arbitrary: n)
  case Nil
  show ?case by (simp add: bounded.intros)
next
  case (Cons c cs)
  have "bounded ((2 + 2 * length (cn_products c)) + collection_awaits cs)
      (andThen (syncSingleCollection_async s c) (\<lambda>_. syncCollectionEdges_async s cs (Suc n)))"
    by (intro bounded_andThen syncSingleCollection_async_bounded Cons.IH)
  then show ?case by (simp add: collection_awaits_def)
qed

lemma alone_add: "alone step (n + m) x = alone step m (alone step n x)"
  by (simp add: alone_def funpow_add add.commute)

lemma alone_Suc: "alone step (Suc n) (s, d) = alone step n (step s d)"
  by (simp add: alone_def funpow_swap1)

lemma interleave_invariant:
  assumes "I p c d"
      and "\<And>p c d. I p c d \<Longrightarrow> I (fst (stepP p d)) c (snd (stepP p d))"
      and "\<And>p c d. I p c d \<Longrightarrow> I p (fst (stepC c d)) (snd (stepC c d))"
  shows "case interleave schedule stepP stepC p c d of (p', c', d') \<Rightarrow> I p' c' d'"
  using assms(1)
proof (induction schedule arbitrary: p c d)
  case Nil
  then show ?case by simp
next
  case (Cons b bs)
  show ?case
  proof (cases b)
    case True
    from Cons.IH [OF assms(2) [OF Cons.prems]] show ?thesis using True by (simp add: split_def Let_def)
  next
    case False
    from Cons.IH [OF assms(3) [OF Cons.prems]] show ?thesis using False by (simp add: split_def Let_def)
  qed
qed

lemma interleave_after_first:
  assumes "\<And>d. stepP p d = (p, d)"
  shows "interleave schedule stepP stepC p c d =
     (case alone stepC (count_list schedule False) (c, d) of (c', d') \<Rightarrow> (p, c', d'))"
proof (induction schedule arbitrary: c d)
  case Nil
  show ?case by (simp add: alone_def)
next
  case (Cons b bs)
  show ?case
  proof (cases b)
    case True
    then show ?thesis using Cons.IH [of c d] assms by simp
  next
    case False
    obtain c' d' where s: "stepC c d = (c', d')" by (cases "stepC c d")
    show ?thesis using False s Cons.IH [of c' d'] by (simp add: alone_Suc)
  qed
qed

lemma interleave_after_second:
  assumes "\<And>d. stepC c d = (c, d)"
  shows "interleave schedule stepP stepC p c d =
     (case alone stepP (count_list schedule True) (p, d) of (p', d') \<Rightarrow> (p', c, d'))"
proof (induction schedule arbitrary: p d)
  case Nil
  show ?case by (simp add: alone_def)
next
  case (Cons b bs)
  show ?case
  proof (cases b)
    case False
    then show ?thesis using Cons.IH [of p d] assms by simp
  next
    case True
    obtain p' d' where s: "stepP p d = (p', d')" by (cases "stepP p d")
    show ?thesis using True s Cons.IH [of p' d'] by (simp add: alone_Suc)
  qed
qed

lemma syncLog_update_shops: "syncLog_update i f d = (r, d') \<Longrightarrow> shops d' = shops d"
  by (auto simp: syncLog_update_def split: if_splits)

lemma sync_step_tidy:
  assumes "tidy p" and "\<And>es n. ends (\<lambda>r. True) (syncEdges es n)"
  shows "tidy (fst (sync_step ety syncEdges admin s p d))
       \<and> shops (snd (sync_step ety syncEdges admin s p d)) = shops d"
proof (cases p)
  case AtCreate
  then show ?thesis by (simp add: createSyncLog_def Let_def)
next
  case (AtRequest i reqs cur n)
  then show ?thesis using assms(2) by (simp add: Let_def split: outcome.splits)
next
  case (InPage i reqs pg t)
  show ?thesis
  proof (cases t)
    case (Done r)
    then show ?thesis using InPage by (cases r) simp_all
  next
    case (Await effect rest)
    then have "ends (\<lambda>r. True) (Await effect rest)" using assms(1) InPage by simp
    then show ?thesis using InPage Await by (auto elim: ends.cases)
  qed
next
  case (AtUpdate i reqs cur n)
  then show ?thesis
    by (auto simp: updateSyncLog_def split: prod.splits outcome.splits dest: syncLog_update_shops)
next
  case (AtComplete i reqs n)
  then show ?thesis
    by (auto simp: completeSyncLog_def split: prod.splits outcome.splits dest: syncLog_update_shops)
next
  case (AtFail i reqs e)
  then show ?thesis
    by (auto simp: failSyncLog_def split: prod.splits outcome.splits dest: syncLog_update_shops)
next
  case (Settled r reqs)
  then show ?thesis by simp
qed

lemma interleave_shops:
  assumes "\<And>es n. ends (\<lambda>r. True) (edgesP es n)" and "\<And>es n. ends (\<lambda>r. True) (edgesC es n)"
      and "interleave schedule (sync_step etyP edgesP adminP s) (sync_step etyC edgesC adminC s)
             AtCreate AtCreate d = (p, c, d')"
  shows "shops d' = shops d"
proof -
  let ?I = "\<lambda>p c d'. tidy p \<and> tidy c \<and> shops d' = shops d"
  have "case interleave schedule (sync_step etyP edgesP adminP s) (sync_step etyC edgesC adminC s)
      AtCreate AtCreate d of (p', c', d') \<Rightarrow> ?I p' c' d'"
  proof (rule interleave_invariant [where I = ?I])
    show "?I AtCreate AtCreate d" by simp
  next
    fix p :: "'a sync_state" and c :: "'b sync_state" and d' :: db
    assume "?I p c d'"
    then show "?I (fst (sync_step etyP edgesP adminP s p d')) c (snd (sync_step etyP edgesP adminP s p d'))"
      using sync_step_tidy [of p edgesP etyP adminP s d'] assms(1) by simp
  next
    fix p :: "'a sync_state" and c :: "'b sync_state" and d' :: db
    assume "?I p c d'"
    then show "?I p (fst (sync_step etyC edgesC adminC s c d')) (snd (sync_step etyC edgesC adminC s c d'))"
      using sync_step_tidy [of c edgesC etyC adminC s d'] assms(2) by simp
  qed
  then show ?thesis using assms(3) by simp
qed

lemma within_mono: "within step final n s \<Longrightarrow> n \<le> m \<Longrightarrow> within step final m s"
proof (induction arbitrary: m rule: within.induct)
  case (within_final s n)
  then show ?case by (simp add: within.intros)
next
  case (within_step n s)
  then obtain m' where m: "m = Suc m'" and le: "n \<le> m'" by (cases m) auto
  show ?case unfolding m using within_step.IH le by (auto intro: within.within_step)
qed

lemma interleave_settles:
  assumes fp: "\<And>s d. finalP s \<Longrightarrow> stepP s d = (s, d)"
      and fc: "\<And>s d. finalC s \<Longrightarrow> stepC s d = (s, d)"
  shows "within stepP finalP n p \<Longrightarrow> within stepC finalC m c \<Longrightarrow>
         n \<le> count_list schedule True \<Longrightarrow> m \<le> count_list schedule False \<Longrightarrow>
         finalP (fst (interleave schedule stepP stepC p c d))
         \<and> finalC (fst (snd (interleave schedule stepP stepC p c d)))"
proof (induction schedule arbitrary: p c d n m)
  case Nil
  then have "within stepP finalP 0 p" "within stepC finalC 0 c" by simp_all
  then show ?case by (auto elim: within.cases)
next
  case (Cons b bs)
  show ?case
  proof (cases b)
    case True
    obtain p' d' where s: "stepP p d = (p', d')" by (cases "stepP p d")
    have "\<exists>n'. within stepP finalP n' p' \<and> n' \<le> count_list bs True"
    proof (cases "finalP p")
      case True
      then have "p' = p" using fp [of p d] s by simp
      then have "within stepP finalP 0 p'" using True by (simp add: within.intros)
      then show ?thesis by auto
    next
      case False
      from Cons.prems(1) False obtain n' where n: "n = Suc n'"
        and w: "\<forall>d. within stepP finalP n' (fst (stepP p d))"
        by (auto elim: within.cases)
      then have "within stepP finalP n' p'" using s by (metis fst_conv)
      moreover have "n' \<le> count_list bs True" using Cons.prems(3) n \<open>b\<close> by simp
      ultimately show ?thesis by auto
    qed
    then obtain n' where w: "within stepP finalP n' p'" and le: "n' \<le> count_list bs True" by auto
    have m: "m \<le> count_list bs False" using Cons.prems(4) True by simp
    from Cons.IH [OF w Cons.prems(2) le m, of d'] show ?thesis using True s by simp
  next
    case False
    obtain c' d' where s: "stepC c d = (c', d')" by (cases "stepC c d")
    have "\<exists>m'. within stepC finalC m' c' \<and> m' \<le> count_list bs False"
    proof (cases "finalC c")
      case True
      then have "c' = c" using fc [of c d] s by simp
      then have "within stepC finalC 0 c'" using True by (simp add: within.intros)
      then show ?thesis by auto
    next
      case F: False
      from Cons.prems(2) F obtain m' where n: "m = Suc m'"
        and w: "\<forall>d. within stepC finalC m' (fst (stepC c d))"
        by (auto elim: within.cases)
      then have "within stepC finalC m' c'" using s by (metis fst_conv)
      moreover have "m' \<le> count_list bs False" using Cons.prems(4) n False by simp
      ultimately show ?thesis by auto
    qed
    then obtain m' where w: "within stepC finalC m' c'" and le: "m' \<le> count_list bs False" by auto
    have n: "n \<le> count_list bs True" using Cons.prems(3) False by simp
    from Cons.IH [OF Cons.prems(1) w n le, of d'] show ?thesis using False s by simp
  qed
qed

lemma sync_step_within:
  fixes syncEdges :: "'n list \<Rightarrow> nat \<Rightarrow> nat task"
  assumes work: "\<And>k c pageData n. admin k c = Return pageData \<Longrightarrow> bounded W (syncEdges (edges pageData) n)"
      and last: "last_request admin N"
  shows "within (sync_step ety syncEdges admin s) is_settled (turns N W) AtCreate"
proof -
  let ?step = "sync_step ety syncEdges admin s"
  let ?within = "within ?step is_settled"
  have settled: "?within n (Settled r q)" for n r q
    by (simp add: within.intros)
  have fail: "?within (Suc n) (AtFail i q e)" for n i q e
    by (rule within_step) (auto simp: settled split: prod.splits outcome.splits)
  have complete: "?within (Suc (Suc n)) (AtComplete i q k)" for n i q k
    by (rule within_step) (auto simp: settled fail split: prod.splits outcome.splits)
  have update: "?within (Suc (Suc (Suc b))) (AtUpdate i q cur k)"
    if "truthy cur \<Longrightarrow> ?within (Suc (Suc b)) (AtRequest i q cur k)" for b i q cur k
    by (rule within_step) (auto simp: that fail complete split: prod.splits outcome.splits)
  have inpage: "?within (w + Suc (Suc (Suc (Suc b)))) (InPage i q pg t)"
    if t: "bounded w t"
      and r: "\<And>k. truthy (if hasNextPage pg then endCursor pg else None) \<Longrightarrow>
               ?within (Suc (Suc b)) (AtRequest i q (if hasNextPage pg then endCursor pg else None) k)"
    for w b i q pg and t :: "nat task"
    using t
  proof (induction rule: bounded.induct)
    case (bounded_Done w r)
    have "?within (Suc (Suc (Suc (Suc b)))) (InPage i q pg (Done r))"
    proof (rule within_step, rule allI)
      fix d
      show "?within (Suc (Suc (Suc b))) (fst (?step (InPage i q pg (Done r)) d))"
      proof (cases r)
        case (Return x)
        have "?within (Suc (Suc (Suc b)))
            (AtUpdate i q (if hasNextPage pg then endCursor pg else None) x)"
          by (rule update) (rule r)
        then show ?thesis using Return by simp
      next
        case (Throw e)
        then show ?thesis using fail [of "Suc (Suc b)" i q e] by simp
      qed
    qed
    then show ?case by (rule within_mono) simp
  next
    case (bounded_Await w rest effect)
    have "?within (Suc (w + Suc (Suc (Suc (Suc b))))) (InPage i q pg (Await effect rest))"
      by (rule within_step) (use bounded_Await.IH in auto)
    then show ?case by simp
  qed
  have request: "length q \<le> N \<Longrightarrow>
      ?within ((Suc N - length q) * (W + 3) + 2) (AtRequest i q cur k)" for i q cur k
  proof (induction "N - length q" arbitrary: q cur k)
    case 0
    then have len: "length q = N" by simp
    let ?v = "if truthy cur then cur else None"
    have "?within (Suc (W + Suc (Suc (Suc (Suc 0))))) (AtRequest i q cur k)"
    proof (rule within_step, rule allI)
      fix d
      show "?within (W + Suc (Suc (Suc (Suc 0)))) (fst (?step (AtRequest i q cur k) d))"
      proof (cases "admin (length q) ?v")
        case (Throw e)
        then have eq: "?step (AtRequest i q cur k) d = (AtFail i (q @ [?v]) e, d)"
          by (simp add: Let_def)
        show ?thesis unfolding eq fst_conv by (rule within_mono [OF fail [of 0]]) simp
      next
        case (Return pg)
        then have eq: "?step (AtRequest i q cur k) d
            = (InPage i (q @ [?v]) pg (syncEdges (edges pg) k), d)"
          by (simp add: Let_def)
        have nt: "\<not> truthy (if hasNextPage pg then endCursor pg else None)"
          using last [unfolded last_request_def, rule_format, of ?v] Return len by auto
        have "?within (W + Suc (Suc (Suc (Suc 0)))) (InPage i (q @ [?v]) pg (syncEdges (edges pg) k))"
          by (rule inpage [OF work [OF Return]]) (simp add: nt)
        then show ?thesis unfolding eq fst_conv .
      qed
    qed
    then show ?case by (rule within_mono) (simp add: len)
  next
    case (Suc m)
    then have lt: "length q < N" by simp
    let ?v = "if truthy cur then cur else None"
    let ?b = "(Suc N - Suc (length q)) * (W + 3)"
    have "?within (Suc (W + Suc (Suc (Suc (Suc ?b))))) (AtRequest i q cur k)"
    proof (rule within_step, rule allI)
      fix d
      show "?within (W + Suc (Suc (Suc (Suc ?b)))) (fst (?step (AtRequest i q cur k) d))"
      proof (cases "admin (length q) ?v")
        case (Throw e)
        then have eq: "?step (AtRequest i q cur k) d = (AtFail i (q @ [?v]) e, d)"
          by (simp add: Let_def)
        show ?thesis unfolding eq fst_conv by (rule within_mono [OF fail [of 0]]) simp
      next
        case (Return pg)
        then have eq: "?step (AtRequest i q cur k) d
            = (InPage i (q @ [?v]) pg (syncEdges (edges pg) k), d)"
          by (simp add: Let_def)
        have m: "m = N - length (q @ [?v])" using Suc.hyps(2) by simp
        have le: "length (q @ [?v]) \<le> N" using lt by simp
        have "?within (W + Suc (Suc (Suc (Suc ?b)))) (InPage i (q @ [?v]) pg (syncEdges (edges pg) k))"
        proof (rule inpage [OF work [OF Return]])
          fix k'
          from Suc.hyps(1) [OF m le, of "if hasNextPage pg then endCursor pg else None" k']
          show "?within (Suc (Suc ?b)) (AtRequest i (q @ [?v]) (if hasNextPage pg then endCursor pg else None) k')"
            by (rule within_mono) simp
        qed
        then show ?thesis unfolding eq fst_conv .
      qed
    qed
    moreover have "Suc (W + Suc (Suc (Suc (Suc ?b)))) \<le> (Suc N - length q) * (W + 3) + 2"
      using lt by (simp add: Suc_diff_le algebra_simps)
    ultimately show ?case by (rule within_mono)
  qed
  have "?within (Suc ((Suc N - length ([] :: string option list)) * (W + 3) + 2)) AtCreate"
  proof (rule within_step, rule allI)
    fix d :: db
    have "?within ((Suc N - length ([] :: string option list)) * (W + 3) + 2)
        (AtRequest (fresh_id (map log_id (syncLogs d))) [] None 0)"
      by (rule request) simp
    then show "?within ((Suc N - length ([] :: string option list)) * (W + 3) + 2)
        (fst (?step AtCreate d))"
      by (simp add: createSyncLog_def Let_def)
  qed
  then show ?thesis by (rule within_mono) (simp add: turns_def)
qed

text \<open>
  Run with no step of another task in between, a sync goes through its steps to the
  result of the function above: the sequential run is the run under the schedules that
  give one task all its steps in a row.
\<close>

lemma alone_page:
  "\<exists>n. alone (sync_step ety syncEdges admin s) n (InPage i reqs pg t, d)
         = (InPage i reqs pg (Done (fst (run t d))), snd (run t d))"
proof (induction t arbitrary: d)
  case (Done r)
  have "alone (sync_step ety syncEdges admin s) 0 (InPage i reqs pg (Done r), d)
      = (InPage i reqs pg (Done (fst (run (Done r) d))), snd (run (Done r) d))"
    by (simp add: alone_def)
  then show ?case by blast
next
  case (Await effect rest)
  from Await.IH [of "rest d" "effect d"] obtain n where
    "alone (sync_step ety syncEdges admin s) n (InPage i reqs pg (rest d), effect d)
       = (InPage i reqs pg (Done (fst (run (rest d) (effect d)))), snd (run (rest d) (effect d)))"
    by (auto simp: range_eqI)
  then have "alone (sync_step ety syncEdges admin s) (Suc n) (InPage i reqs pg (Await effect rest), d)
      = (InPage i reqs pg (Done (fst (run (Await effect rest) d))), snd (run (Await effect rest) d))"
    by (simp add: alone_Suc)
  then show ?case by blast
qed

lemma alone_loop_aux:
  assumes run: "sync_loop f admin i reqs cur k0 d = Some y"
  shows "f = (\<lambda>es n. run (syncEdges es n)) \<longrightarrow>
     (\<exists>n. alone (sync_step ety syncEdges admin s) n (AtRequest i reqs cur k0, d)
           = (case fst y of
                Throw e \<Rightarrow> AtFail i (fst (snd y)) e
              | Return k \<Rightarrow> AtComplete i (fst (snd y)) k, snd (snd y)))"
proof (rule sync_loop.raw_induct [where P = "\<lambda>f admin i reqs cur k0 d y.
     f = (\<lambda>es n. run (syncEdges es n)) \<longrightarrow>
     (\<exists>n. alone (sync_step ety syncEdges admin s) n (AtRequest i reqs cur k0, d)
           = (case fst y of
                Throw e \<Rightarrow> AtFail i (fst (snd y)) e
              | Return k \<Rightarrow> AtComplete i (fst (snd y)) k, snd (snd y)))", OF _ run])
  fix loop :: "('a list \<Rightarrow> nat \<Rightarrow> db \<Rightarrow> nat outcome \<times> db) \<Rightarrow> 'a graphql \<Rightarrow> nat \<Rightarrow> string option list
     \<Rightarrow> string option \<Rightarrow> nat \<Rightarrow> db \<Rightarrow> (nat outcome \<times> string option list \<times> db) option"
  fix f admin i reqs cur k0 d y
  assume IH: "\<And>f admin i reqs cur k0 d y.
      loop f admin i reqs cur k0 d = Some y \<Longrightarrow>
      f = (\<lambda>es n. run (syncEdges es n)) \<longrightarrow>
      (\<exists>n. alone (sync_step ety syncEdges admin s) n (AtRequest i reqs cur k0, d)
           = (case fst y of
                Throw e \<Rightarrow> AtFail i (fst (snd y)) e
              | Return k \<Rightarrow> AtComplete i (fst (snd y)) k, snd (snd y)))"
  assume body: "(let variables = if truthy cur then cur else None
      in case admin (length reqs) variables of
         Return pageData \<Rightarrow>
           (case f (edges pageData) k0 d of
           (Return n, d1) \<Rightarrow>
             let cur' = if hasNextPage pageData then endCursor pageData else None
             in (case updateSyncLog i n d1 of
                (Return x, d2) \<Rightarrow>
                  if truthy cur'
                  then loop f admin i (reqs @ [variables]) cur' n d2
                  else Some (Return n, reqs @ [variables], d2)
                | (Throw e, d2) \<Rightarrow> Some (Throw e, reqs @ [variables], d2))
           | (Throw e, d1) \<Rightarrow> Some (Throw e, reqs @ [variables], d1))
         | Throw e \<Rightarrow> Some (Throw e, reqs @ [variables], d)) = Some y"
  let ?step = "sync_step ety syncEdges admin s"
  let ?goal = "\<lambda>y. \<exists>n. alone ?step n (AtRequest i reqs cur k0, d)
           = (case fst y of
                Throw e \<Rightarrow> AtFail i (fst (snd y)) e
              | Return k \<Rightarrow> AtComplete i (fst (snd y)) k, snd (snd y))"
  show "f = (\<lambda>es n. run (syncEdges es n)) \<longrightarrow> ?goal y"
  proof
    assume f: "f = (\<lambda>es n. run (syncEdges es n))"
    let ?v = "if truthy cur then cur else None"
    show "?goal y"
    proof (cases "admin (length reqs) ?v")
      case (Throw e)
      then have y: "y = (Throw e, reqs @ [?v], d)" using body by (simp add: Let_def)
      have "alone ?step (Suc 0) (AtRequest i reqs cur k0, d) = (AtFail i (reqs @ [?v]) e, d)"
        using Throw by (simp add: alone_def Let_def)
      then show ?thesis unfolding y by (intro exI [of _ "Suc 0"]) simp
    next
      case (Return pg)
      let ?t = "syncEdges (edges pg) k0"
      obtain r1 d1 where e: "run ?t d = (r1, d1)" by (cases "run ?t d")
      have s1: "alone ?step (Suc 0) (AtRequest i reqs cur k0, d) = (InPage i (reqs @ [?v]) pg ?t, d)"
        using Return by (simp add: alone_def Let_def)
      from alone_page [of ety syncEdges admin s i "reqs @ [?v]" pg ?t d] e obtain n1 where
        s2: "alone ?step n1 (InPage i (reqs @ [?v]) pg ?t, d) = (InPage i (reqs @ [?v]) pg (Done r1), d1)"
        by auto
      have s12: "alone ?step (Suc 0 + n1) (AtRequest i reqs cur k0, d)
          = (InPage i (reqs @ [?v]) pg (Done r1), d1)"
        unfolding alone_add s1 s2 ..
      show ?thesis
      proof (cases r1)
        case T: (Throw x)
        then have y: "y = (Throw x, reqs @ [?v], d1)" using body Return e f by (simp add: Let_def)
        have "alone ?step (Suc 0 + n1 + Suc 0) (AtRequest i reqs cur k0, d)
            = (AtFail i (reqs @ [?v]) x, d1)"
          unfolding alone_add [of _ "Suc 0 + n1"] s12 using T by (simp add: alone_def)
        then show ?thesis unfolding y by (intro exI [of _ "Suc 0 + n1 + Suc 0"]) simp
      next
        case R: (Return n)
        let ?c = "if hasNextPage pg then endCursor pg else None"
        have s3: "alone ?step (Suc 0 + n1 + Suc 0) (AtRequest i reqs cur k0, d)
            = (AtUpdate i (reqs @ [?v]) ?c n, d1)"
          unfolding alone_add [of _ "Suc 0 + n1"] s12 using R by (simp add: alone_def)
        obtain r2 d2 where u: "updateSyncLog i n d1 = (r2, d2)" by (cases "updateSyncLog i n d1")
        show ?thesis
        proof (cases r2)
          case T2: (Throw x)
          then have y: "y = (Throw x, reqs @ [?v], d2)"
            using body Return e f R u by (simp add: Let_def)
          have "alone ?step (Suc 0 + n1 + Suc 0 + Suc 0) (AtRequest i reqs cur k0, d)
              = (AtFail i (reqs @ [?v]) x, d2)"
            unfolding alone_add [of _ "Suc 0 + n1 + Suc 0"] s3 using T2 u by (simp add: alone_def)
          then show ?thesis unfolding y by (intro exI [of _ "Suc 0 + n1 + Suc 0 + Suc 0"]) simp
        next
          case R2: (Return x2)
          show ?thesis
          proof (cases "truthy ?c")
            case False
            then have y: "y = (Return n, reqs @ [?v], d2)"
              using body Return e f R u R2 by (simp add: Let_def)
            have "alone ?step (Suc 0 + n1 + Suc 0 + Suc 0) (AtRequest i reqs cur k0, d)
                = (AtComplete i (reqs @ [?v]) n, d2)"
              unfolding alone_add [of _ "Suc 0 + n1 + Suc 0"] s3 using R2 u False
              by (simp add: alone_def)
            then show ?thesis unfolding y by (intro exI [of _ "Suc 0 + n1 + Suc 0 + Suc 0"]) simp
          next
            case True
            then have l: "loop f admin i (reqs @ [?v]) ?c n d2 = Some y"
              using body Return e f R u R2 by (simp add: Let_def)
            have s4: "alone ?step (Suc 0 + n1 + Suc 0 + Suc 0) (AtRequest i reqs cur k0, d)
                = (AtRequest i (reqs @ [?v]) ?c n, d2)"
              unfolding alone_add [of _ "Suc 0 + n1 + Suc 0"] s3 using R2 u True
              by (simp add: alone_def)
            from IH [OF l] f obtain m where
              "alone ?step m (AtRequest i (reqs @ [?v]) ?c n, d2)
                 = (case fst y of
                      Throw e \<Rightarrow> AtFail i (fst (snd y)) e
                    | Return k \<Rightarrow> AtComplete i (fst (snd y)) k, snd (snd y))"
              by blast
            then have "alone ?step (Suc 0 + n1 + Suc 0 + Suc 0 + m) (AtRequest i reqs cur k0, d)
                 = (case fst y of
                      Throw e \<Rightarrow> AtFail i (fst (snd y)) e
                    | Return k \<Rightarrow> AtComplete i (fst (snd y)) k, snd (snd y))"
              unfolding alone_add [of _ "Suc 0 + n1 + Suc 0 + Suc 0"] s4 .
            then show ?thesis by blast
          qed
        qed
      qed
    qed
  qed
qed

lemma sync_entity_alone:
  assumes "sync_entity ety (\<lambda>es n. run (syncEdges es n)) admin s d = Some (r, reqs, d')"
  shows "\<exists>n. alone (sync_step ety syncEdges admin s) n (AtCreate, d) = (Settled r reqs, d')"
proof -
  let ?step = "sync_step ety syncEdges admin s"
  obtain syncLog d0 where c: "createSyncLog s ety ''initial'' d = (syncLog, d0)"
    by (cases "createSyncLog s ety ''initial'' d")
  let ?i = "log_id syncLog"
  have s0: "alone ?step (Suc 0) (AtCreate, d) = (AtRequest ?i [] None 0, d0)"
    using c by (simp add: alone_def)
  from assms c obtain r0 q d1 where
    l: "sync_loop (\<lambda>es n. run (syncEdges es n)) admin ?i [] None 0 d0 = Some (r0, q, d1)"
    by (cases "sync_loop (\<lambda>es n. run (syncEdges es n)) admin ?i [] None 0 d0")
       (auto simp: sync_entity_def)
  from alone_loop_aux [OF l, of syncEdges ety s] obtain n1 where
    s1: "alone ?step n1 (AtRequest ?i [] None 0, d0)
        = (case r0 of Throw e \<Rightarrow> AtFail ?i q e | Return k \<Rightarrow> AtComplete ?i q k, d1)"
    by (cases r0) auto
  have fail: "\<exists>n. alone ?step n (AtFail ?i q e, d2) = (Settled r reqs, d')"
    if "(case failSyncLog ?i (message e) d2 of
           (Throw e', d3) \<Rightarrow> Some (Throw e', q, d3)
         | (Return _, d3) \<Rightarrow> Some (Throw e, q, d3)) = Some (r, reqs, d')" for e d2
  proof -
    have "alone ?step (Suc 0) (AtFail ?i q e, d2) = (Settled r reqs, d')"
      using that by (auto simp: alone_def split: prod.splits outcome.splits)
    then show ?thesis by blast
  qed
  have "\<exists>n. alone ?step n (case r0 of Throw e \<Rightarrow> AtFail ?i q e | Return k \<Rightarrow> AtComplete ?i q k, d1)
      = (Settled r reqs, d')"
  proof (cases r0)
    case (Throw e)
    then show ?thesis using assms c l fail [of e d1] by (simp add: sync_entity_def)
  next
    case (Return k)
    obtain r2 d2 where u: "completeSyncLog ?i k k d1 = (r2, d2)"
      by (cases "completeSyncLog ?i k k d1")
    show ?thesis
    proof (cases r2)
      case R: (Return x)
      then have "alone ?step (Suc 0) (AtComplete ?i q k, d1) = (Settled r reqs, d')"
        using assms c l Return u by (auto simp: sync_entity_def alone_def)
      then show ?thesis using Return by auto
    next
      case T: (Throw e)
      have s2: "alone ?step (Suc 0) (AtComplete ?i q k, d1) = (AtFail ?i q e, d2)"
        using u T by (simp add: alone_def)
      from fail [of e d2] obtain n where "alone ?step n (AtFail ?i q e, d2) = (Settled r reqs, d')"
        using assms c l Return u T by (auto simp: sync_entity_def)
      then have "alone ?step (Suc 0 + n) (AtComplete ?i q k, d1) = (Settled r reqs, d')"
        unfolding alone_add s2 .
      then show ?thesis using Return by auto
    qed
  qed
  then obtain n2 where
    "alone ?step n2 (case r0 of Throw e \<Rightarrow> AtFail ?i q e | Return k \<Rightarrow> AtComplete ?i q k, d1)
      = (Settled r reqs, d')" by blast
  then have "alone ?step (Suc 0 + n1 + n2) (AtCreate, d) = (Settled r reqs, d')"
    unfolding alone_add [of _ "Suc 0 + n1"] alone_add [of _ "Suc 0"] s0 s1 .
  then show ?thesis by blast
qed

lemma syncProducts_alone:
  assumes "syncProducts pa s d = Some (r, reqs, d')"
  shows "\<exists>n. alone (syncProducts_step pa s) n (AtCreate, d) = (Settled r reqs, d')"
proof -
  have "(\<lambda>es n. run (syncProductEdges_async s es n)) = syncProductEdges s"
    by (intro ext) (rule run_syncProductEdges)
  with assms show ?thesis
    unfolding syncProducts_def syncProducts_step_def
    by (intro sync_entity_alone) simp
qed

lemma syncCollections_alone:
  assumes "syncCollections ca s d = Some (r, reqs, d')"
  shows "\<exists>n. alone (syncCollections_step ca s) n (AtCreate, d) = (Settled r reqs, d')"
proof -
  have "(\<lambda>es n. run (syncCollectionEdges_async s es n)) = syncCollectionEdges s"
    by (intro ext) (rule run_syncCollectionEdges)
  with assms show ?thesis
    unfolding syncCollections_def syncCollections_step_def
    by (intro sync_entity_alone) simp
qed

section \<open>Theorems: orchestration\<close>

lemma is_settled_iff: "is_settled s \<longleftrightarrow> settled s \<noteq> None"
  by (cases s) simp_all

lemma syncAllData_settled:
  assumes shop: "syncShopData shopDomain shopQuery d = (Return shopId, d0)"
      and run: "interleave schedule (syncProducts_step pa shopId) (syncCollections_step ca shopId)
                  AtCreate AtCreate d0 = (p, c, d1)"
  shows "(\<exists>row \<in> set (shops d1). shop_domain row = shopDomain)
       \<and> syncAllData schedule shopDomain shopQuery pa ca d =
           (if is_settled p \<and> is_settled c
            then Some (\<lparr> success = True,
                   result_message = Some ''Initial sync completed successfully (products, collections, and shop data only)'',
                   result_error = None \<rparr>,
                 d1\<lparr> shops := map (\<lambda>r. if shop_domain r = shopDomain
                                         then r\<lparr> shop_lastSyncAt := Some (Now (clock d1)) \<rparr> else r)
                                   (shops d1) \<rparr>)
            else None)"
proof -
  have "shops d1 = shops d0"
    by (rule interleave_shops [OF _ _ run [unfolded syncProducts_step_def syncCollections_step_def]])
       (rule ends_mono [OF syncProductEdges_async_ends], simp, rule syncCollectionEdges_async_ends)
  with syncShopData_shop [OF shop]
  have ex: "\<exists>row \<in> set (shops d1). shop_domain row = shopDomain" by simp
  show ?thesis
  proof (cases "is_settled p \<and> is_settled c")
    case True
    then obtain r1 q1 r2 q2 where "p = Settled r1 q1" "c = Settled r2 q2"
      by (cases p; cases c) simp_all
    then show ?thesis using shop run ex
      by (simp add: syncAllData_def allSettled_def shop_update_lastSyncAt_def)
  next
    case False
    then have "settled p = None \<or> settled c = None" by (simp add: is_settled_iff)
    then have "allSettled schedule (syncProducts_step pa shopId) (syncCollections_step ca shopId) d0 = None"
      using run by (auto simp: allSettled_def split: option.splits)
    then show ?thesis using shop ex False by (simp add: syncAllData_def)
  qed
qed

lemma both_settle:
  assumes "last_request pa N" and "last_request ca M"
      and wp: "\<forall>k c pageData. pa k c = Return pageData \<longrightarrow> product_awaits (edges pageData) \<le> W"
      and wc: "\<forall>k c pageData. ca k c = Return pageData \<longrightarrow> collection_awaits (edges pageData) \<le> V"
      and "turns N W \<le> count_list schedule True" and "turns M V \<le> count_list schedule False"
      and run: "interleave schedule (syncProducts_step pa shopId) (syncCollections_step ca shopId)
                  AtCreate AtCreate d0 = (p, c, d1)"
  shows "is_settled p \<and> is_settled c"
proof -
  have wp: "within (syncProducts_step pa shopId) is_settled (turns N W) AtCreate"
    unfolding syncProducts_step_def
  proof (rule sync_step_within)
    fix k c pageData n
    assume "pa k c = Return pageData"
    then have "product_awaits (edges pageData) \<le> W" using wp by blast
    with syncProductEdges_async_bounded
    show "bounded W (syncProductEdges_async shopId (edges pageData) n)" by (rule bounded_mono)
  qed (rule assms(1))
  have wc: "within (syncCollections_step ca shopId) is_settled (turns M V) AtCreate"
    unfolding syncCollections_step_def
  proof (rule sync_step_within)
    fix k c pageData n
    assume "ca k c = Return pageData"
    then have "collection_awaits (edges pageData) \<le> V" using wc by blast
    with syncCollectionEdges_async_bounded
    show "bounded V (syncCollectionEdges_async shopId (edges pageData) n)" by (rule bounded_mono)
  qed (rule assms(2))
  have fp: "\<And>s d. is_settled s \<Longrightarrow> syncProducts_step pa shopId s d = (s, d)"
    by (case_tac s) (simp_all add: syncProducts_step_def)
  have fc: "\<And>s d. is_settled s \<Longrightarrow> syncCollections_step ca shopId s d = (s, d)"
    by (case_tac s) (simp_all add: syncCollections_step_def)
  from interleave_settles [where finalP = is_settled and finalC = is_settled,
      OF fp fc wp wc assms(5,6), of d0] run
  show ?thesis by simp
qed

text \<open>
  Claim C6. When the shop sync has succeeded, then under every schedule of the steps of
  the product sync and the collection sync: the shop row is still there, and
  \<open>syncAllData\<close> returns exactly when both syncs have settled, whatever their outcomes,
  with \<open>success: true\<close> and the last-sync timestamp of the shop set to the clock on the
  store the two have left. Once one of the two has settled, rejected or not, the other
  takes its remaining steps as it would alone. And the group does settle: against
  remotes that end the pagination at requests \<open>N\<close> and \<open>M\<close> with at most \<open>W\<close> and \<open>V\<close>
  operations a page, every schedule that gives the syncs \<open>turns N W\<close> and \<open>turns M V\<close>
  steps ends with both settled and the run reported successful.
\<close>

theorem allSettled_isolation:
  assumes shop: "syncShopData shopDomain shopQuery d = (Return shopId, d0)"
  shows
   "(\<forall>schedule p c d1.
        interleave schedule (syncProducts_step pa shopId) (syncCollections_step ca shopId)
          AtCreate AtCreate d0 = (p, c, d1) \<longrightarrow>
        (\<exists>row \<in> set (shops d1). shop_domain row = shopDomain)
        \<and> syncAllData schedule shopDomain shopQuery pa ca d =
            (if is_settled p \<and> is_settled c
             then Some (\<lparr> success = True,
                    result_message = Some ''Initial sync completed successfully (products, collections, and shop data only)'',
                    result_error = None \<rparr>,
                  d1\<lparr> shops := map (\<lambda>r. if shop_domain r = shopDomain
                                          then r\<lparr> shop_lastSyncAt := Some (Now (clock d1)) \<rparr> else r)
                                    (shops d1) \<rparr>)
             else None))
  \<and> (\<forall>schedule r q c d'.
        interleave schedule (syncProducts_step pa shopId) (syncCollections_step ca shopId)
          (Settled r q) c d'
        = (case alone (syncCollections_step ca shopId) (count_list schedule False) (c, d') of
             (c', d'') \<Rightarrow> (Settled r q, c', d'')))
  \<and> (\<forall>schedule r q p d'.
        interleave schedule (syncProducts_step pa shopId) (syncCollections_step ca shopId)
          p (Settled r q) d'
        = (case alone (syncProducts_step pa shopId) (count_list schedule True) (p, d') of
             (p', d'') \<Rightarrow> (p', Settled r q, d'')))
  \<and> (\<forall>N M W V schedule.
        last_request pa N \<and> last_request ca M
        \<and> (\<forall>k c pageData. pa k c = Return pageData \<longrightarrow> product_awaits (edges pageData) \<le> W)
        \<and> (\<forall>k c pageData. ca k c = Return pageData \<longrightarrow> collection_awaits (edges pageData) \<le> V)
        \<and> turns N W \<le> count_list schedule True \<and> turns M V \<le> count_list schedule False
        \<longrightarrow> (\<exists>d'. syncAllData schedule shopDomain shopQuery pa ca d =
                  Some (\<lparr> success = True,
                    result_message = Some ''Initial sync completed successfully (products, collections, and shop data only)'',
                    result_error = None \<rparr>, d')))"
proof (intro conjI allI impI)
  fix schedule p c d1
  assume run: "interleave schedule (syncProducts_step pa shopId) (syncCollections_step ca shopId)
          AtCreate AtCreate d0 = (p, c, d1)"
  from syncAllData_settled [OF shop run]
  show "\<exists>row \<in> set (shops d1). shop_domain row = shopDomain"
    and "syncAllData schedule shopDomain shopQuery pa ca d =
            (if is_settled p \<and> is_settled c
             then Some (\<lparr> success = True,
                    result_message = Some ''Initial sync completed successfully (products, collections, and shop data only)'',
                    result_error = None \<rparr>,
                  d1\<lparr> shops := map (\<lambda>r. if shop_domain r = shopDomain
                                          then r\<lparr> shop_lastSyncAt := Some (Now (clock d1)) \<rparr> else r)
                                    (shops d1) \<rparr>)
             else None)"
    by blast+
next
  fix schedule r q and c :: "collection_node sync_state" and d'
  show "interleave schedule (syncProducts_step pa shopId) (syncCollections_step ca shopId)
          (Settled r q) c d'
        = (case alone (syncCollections_step ca shopId) (count_list schedule False) (c, d') of
             (c', d'') \<Rightarrow> (Settled r q, c', d''))"
    by (rule interleave_after_first) (simp add: syncProducts_step_def)
next
  fix schedule r q and p :: "product_node sync_state" and d'
  show "interleave schedule (syncProducts_step pa shopId) (syncCollections_step ca shopId)
          p (Settled r q) d'
        = (case alone (syncProducts_step pa shopId) (count_list schedule True) (p, d') of
             (p', d'') \<Rightarrow> (p', Settled r q, d''))"
    by (rule interleave_after_second) (simp add: syncCollections_step_def)
next
  fix N M W V schedule
  assume a: "last_request pa N \<and> last_request ca M
        \<and> (\<forall>k c pageData. pa k c = Return pageData \<longrightarrow> product_awaits (edges pageData) \<le> W)
        \<and> (\<forall>k c pageData. ca k c = Return pageData \<longrightarrow> collection_awaits (edges pageData) \<le> V)
        \<and> turns N W \<le> count_list schedule True \<and> turns M V \<le> count_list schedule False"
  obtain p c d1 where run: "interleave schedule (syncProducts_step pa shopId)
      (syncCollections_step ca shopId) AtCreate AtCreate d0 = (p, c, d1)"
    by (cases "interleave schedule (syncProducts_step pa shopId)
      (syncCollections_step ca shopId) AtCreate AtCreate d0") auto
  from a have "is_settled p \<and> is_settled c"
    by (intro both_settle [OF _ _ _ _ _ _ run, of N M W V]) blast+
  with syncAllData_settled [OF shop run]
  show "\<exists>d'. syncAllData schedule shopDomain shopQuery pa ca d =
                  Some (\<lparr> success = True,
                    result_message = Some ''Initial sync completed successfully (products, collections, and shop data only)'',
                    result_error = None \<rparr>, d')"
    by simp
qed

lemmas async_eval =
  syncProducts_step_def syncCollections_step_def scripted_def
  syncSingleProduct_async_def syncSingleCollection_async_def await_def returning_def
  createSyncLog_def updateSyncLog_def completeSyncLog_def failSyncLog_def syncLog_update_def
  syncShopData_def upsert_shop_def demo_shop_def synced_shop_def

lemma taking_turns_eq:
  "taking_turns = [True, False, True, False, True, False, True, False, True, False,
                   True, False, True, False, True, False, True, False, True, False,
                   True, False, True, False, True, False, True, False, True, False,
                   True, False, True, False, True, False, True, False, True, False,
                   True, False]"
  by (simp add: taking_turns_def eval_nat_numeral)

lemma taking_turns_count:
  "count_list taking_turns True = 21" "count_list taking_turns False = 21" "hd taking_turns"
  by (simp_all add: taking_turns_eq)

lemma demo_shop_synced:
  "syncShopData ''demo.myshopify.com'' demo_shop empty_db = (Return 1, synced_shop)"
  by (simp add: async_eval store_eval BigInt_eval)

lemma scripted_last:
  "pgs \<noteq> [] \<Longrightarrow> \<not> hasNextPage (last pgs) \<Longrightarrow> last_request (scripted pgs) (length pgs - 1)"
  by (cases pgs rule: rev_cases) (auto simp: last_request_def scripted_def nth_append)

lemma scripted_pages:
  "scripted pgs k c = Return pageData \<Longrightarrow> pageData \<in> set pgs"
  by (auto simp: scripted_def split: if_splits)

lemma one_page_run:
  "(case interleave taking_turns (syncProducts_step (scripted five_products_one_page) 1)
      (syncCollections_step (scripted one_collection_page) 1) AtCreate AtCreate synced_shop of
      (p, c, d) \<Rightarrow> (settled p, settled c, collectionProducts d, clock d,
         map (\<lambda>r. (log_entityType r, log_status r)) (syncLogs d),
         map (\<lambda>r. (shop_domain r, shop_lastSyncAt r)) (shops d)))
   = (Some (Throw (SyntaxError ''Cannot convert oops to a BigInt'')),
      Some (Return ()), [\<lparr>cp_collectionId = 1, cp_productId = 1\<rparr>], 0,
      [(''shop'', ''completed''), (''products'', ''failed''), (''collections'', ''completed'')],
      [(''demo.myshopify.com'', None)])"
  by (simp add: taking_turns_eq async_eval store_eval BigInt_eval five_products_one_page_def
      one_collection_page_def a_collection_def)

lemma one_page_work:
  "\<forall>k c pageData. scripted five_products_one_page k c = Return pageData
      \<longrightarrow> product_awaits (edges pageData) \<le> 10"
  "\<forall>k c pageData. scripted one_collection_page k c = Return pageData
      \<longrightarrow> collection_awaits (edges pageData) \<le> 6"
  by (auto dest!: scripted_pages
      simp: five_products_one_page_def one_collection_page_def a_collection_def a_product_def
        product_awaits_def collection_awaits_def)

lemma one_page_last:
  "last_request (scripted five_products_one_page) 0"
  "last_request (scripted one_collection_page) 0"
  using scripted_last [of five_products_one_page] scripted_last [of one_collection_page]
  by (simp_all add: five_products_one_page_def one_collection_page_def)

text \<open>
  The two syncs taking turns: the product sync rejects on its third record, the
  collection sync links the product that was stored meanwhile and completes, and the run
  succeeds.
\<close>

theorem allSettled_isolation_witness:
  "syncShopData ''demo.myshopify.com'' demo_shop empty_db = (Return 1, synced_shop)
   \<and> (\<exists>p c d1.
         interleave taking_turns (syncProducts_step (scripted five_products_one_page) 1)
           (syncCollections_step (scripted one_collection_page) 1) AtCreate AtCreate synced_shop
           = (p, c, d1)
       \<and> settled p = Some (Throw (SyntaxError ''Cannot convert oops to a BigInt''))
       \<and> settled c = Some (Return ())
       \<and> collectionProducts d1 = [\<lparr>cp_collectionId = 1, cp_productId = 1\<rparr>]
       \<and> map (\<lambda>r. (log_entityType r, log_status r)) (syncLogs d1)
            = [(''shop'', ''completed''), (''products'', ''failed''), (''collections'', ''completed'')]
       \<and> map_option (\<lambda>(res, d'). (success res, map shop_lastSyncAt (shops d'), syncLogs d' = syncLogs d1))
            (syncAllData taking_turns ''demo.myshopify.com'' demo_shop
               (scripted five_products_one_page) (scripted one_collection_page) empty_db)
            = Some (True, [Some (Now 0)], True))
   \<and> interleave [False, True, False] (syncProducts_step (scripted five_products_one_page) 1)
         (syncCollections_step (scripted one_collection_page) 1)
         (Settled (Throw (Error ''boom'')) []) AtCreate synced_shop
       = (case alone (syncCollections_step (scripted one_collection_page) 1) 2 (AtCreate, synced_shop) of
            (c', d'') \<Rightarrow> (Settled (Throw (Error ''boom'')) [], c', d''))
   \<and> last_request (scripted five_products_one_page) 0
   \<and> last_request (scripted one_collection_page) 0
   \<and> turns 0 10 \<le> count_list taking_turns True \<and> turns 0 6 \<le> count_list taking_turns False
   \<and> (\<exists>d'. syncAllData taking_turns ''demo.myshopify.com'' demo_shop
               (scripted five_products_one_page) (scripted one_collection_page) empty_db
             = Some (\<lparr> success = True,
                    result_message = Some ''Initial sync completed successfully (products, collections, and shop data only)'',
                    result_error = None \<rparr>, d'))"
proof -
  let ?sp = "syncProducts_step (scripted five_products_one_page) 1"
  let ?sc = "syncCollections_step (scripted one_collection_page) 1"
  note T = allSettled_isolation [OF demo_shop_synced, of "scripted five_products_one_page"
      "scripted one_collection_page"]
  obtain p c d1 where run: "interleave taking_turns ?sp ?sc AtCreate AtCreate synced_shop = (p, c, d1)"
    by (cases "interleave taking_turns ?sp ?sc AtCreate AtCreate synced_shop") auto
  from one_page_run [unfolded run] have
    st: "settled p = Some (Throw (SyntaxError ''Cannot convert oops to a BigInt''))"
      "settled c = Some (Return ())"
    and links: "collectionProducts d1 = [\<lparr>cp_collectionId = 1, cp_productId = 1\<rparr>]"
    and clk: "clock d1 = 0"
    and logs: "map (\<lambda>r. (log_entityType r, log_status r)) (syncLogs d1)
            = [(''shop'', ''completed''), (''products'', ''failed''), (''collections'', ''completed'')]"
    and sh: "map (\<lambda>r. (shop_domain r, shop_lastSyncAt r)) (shops d1) = [(''demo.myshopify.com'', None)]"
    by simp_all
  from sh obtain row where row: "shops d1 = [row]" "shop_domain row = ''demo.myshopify.com''"
    by (auto simp: map_eq_Cons_conv)
  have both: "is_settled p \<and> is_settled c" using st by (simp add: is_settled_iff)
  from T [THEN conjunct1, rule_format, OF run] both
  have all: "syncAllData taking_turns ''demo.myshopify.com'' demo_shop
       (scripted five_products_one_page) (scripted one_collection_page) empty_db
     = Some (\<lparr> success = True,
              result_message = Some ''Initial sync completed successfully (products, collections, and shop data only)'',
              result_error = None \<rparr>,
            d1\<lparr> shops := map (\<lambda>r. if shop_domain r = ''demo.myshopify.com''
                                    then r\<lparr> shop_lastSyncAt := Some (Now (clock d1)) \<rparr> else r)
                              (shops d1) \<rparr>)"
    by simp
  have res: "map_option (\<lambda>(res, d'). (success res, map shop_lastSyncAt (shops d'), syncLogs d' = syncLogs d1))
            (syncAllData taking_turns ''demo.myshopify.com'' demo_shop
               (scripted five_products_one_page) (scripted one_collection_page) empty_db)
            = Some (True, [Some (Now 0)], True)"
    unfolding all using row clk by simp
  from T [THEN conjunct2, THEN conjunct1, rule_format,
      of "[False, True, False]" "Throw (Error ''boom'')" "[]" AtCreate synced_shop]
  have iso: "interleave [False, True, False] ?sp ?sc (Settled (Throw (Error ''boom'')) []) AtCreate synced_shop
       = (case alone ?sc 2 (AtCreate, synced_shop) of
            (c', d'') \<Rightarrow> (Settled (Throw (Error ''boom'')) [], c', d''))"
    by (simp add: numeral_2_eq_2)
  have t: "turns 0 10 \<le> count_list taking_turns True" "turns 0 6 \<le> count_list taking_turns False"
    by (simp_all add: turns_def taking_turns_count)
  from T [THEN conjunct2, THEN conjunct2, THEN conjunct2, rule_format, of 0 0 10 6 taking_turns]
    one_page_last one_page_work t
  have live: "\<exists>d'. syncAllData taking_turns ''demo.myshopify.com'' demo_shop
               (scripted five_products_one_page) (scripted one_collection_page) empty_db
             = Some (\<lparr> success = True,
                    result_message = Some ''Initial sync completed successfully (products, collections, and shop data only)'',
                    result_error = None \<rparr>, d')"
    by blast
  have ex: "\<exists>p c d1.
         interleave taking_turns ?sp ?sc AtCreate AtCreate synced_shop = (p, c, d1)
       \<and> settled p = Some (Throw (SyntaxError ''Cannot convert oops to a BigInt''))
       \<and> settled c = Some (Return ())
       \<and> collectionProducts d1 = [\<lparr>cp_collectionId = 1, cp_productId = 1\<rparr>]
       \<and> map (\<lambda>r. (log_entityType r, log_status r)) (syncLogs d1)
            = [(''shop'', ''completed''), (''products'', ''failed''), (''collections'', ''completed'')]
       \<and> map_option (\<lambda>(res, d'). (success res, map shop_lastSyncAt (shops d'), syncLogs d' = syncLogs d1))
            (syncAllData taking_turns ''demo.myshopify.com'' demo_shop
               (scripted five_products_one_page) (scripted one_collection_page) empty_db)
            = Some (True, [Some (Now 0)], True)"
    using run st links logs res by (intro exI conjI)
  show ?thesis
    using demo_shop_synced ex iso one_page_last t live by (intro conjI)
qed

text \<open>
  The store the two syncs leave depends on the schedule. A collection has the fourth and
  the first product as members: with the product sync first it is linked to both, with
  the collection sync first to none, and when the two take turns to the first alone,
  which was stored by the time the collection sync looked for it.
\<close>

lemma schedule_observable:
  "map (\<lambda>schedule.
          map_option (\<lambda>(outcomes, d). (outcomes, collectionProducts d))
            (allSettled schedule
               (syncProducts_step (scripted two_product_pages) 1)
               (syncCollections_step (scripted two_member_collection_page) 1) synced_shop))
     [replicate 16 True @ replicate 11 False,
      replicate 11 False @ replicate 16 True,
      taking_turns]
   = [Some ((Return (), Return ()),
        [\<lparr>cp_collectionId = 1, cp_productId = 4\<rparr>, \<lparr>cp_collectionId = 1, cp_productId = 1\<rparr>]),
      Some ((Return (), Return ()), []),
      Some ((Return (), Return ()), [\<lparr>cp_collectionId = 1, cp_productId = 1\<rparr>])]"
  by (simp add: allSettled_def taking_turns_eq eval_nat_numeral async_eval store_eval BigInt_eval
      two_product_pages_def two_member_collection_page_def)

section \<open>Theorems: partial failure\<close>

lemma syncLog_update_own:
  assumes "syncLogs d = A @ row # B" and "\<forall>x \<in> set (A @ B). log_id x \<noteq> log_id row"
  shows "syncLog_update (log_id row) f d = (Return (), d\<lparr> syncLogs := A @ f row # B \<rparr>)"
proof -
  have "map (\<lambda>r. if log_id r = log_id row then f r else r) X = X"
    if "\<forall>x \<in> set X. log_id x \<noteq> log_id row" for X
    using that by (induction X) auto
  then show ?thesis using assms by (simp add: syncLog_update_def)
qed

lemma own_row:
  assumes "syncLogs d = L0 @ (if b then [row] @ crow else crow @ [row])"
      and "\<forall>x \<in> set (L0 @ crow). log_id x \<noteq> log_id row"
  shows "syncLog_update (log_id row) f d
     = (Return (), d\<lparr> syncLogs := L0 @ (if b then [f row] @ crow else crow @ [f row]) \<rparr>)"
proof (cases b)
  case True
  then show ?thesis
    using syncLog_update_own [of d L0 row crow f] assms by simp
next
  case False
  then show ?thesis
    using syncLog_update_own [of d "L0 @ crow" row "[]" f] assms by simp
qed

lemma other_row:
  assumes "syncLogs d = L0 @ (if b then prow @ [row] else [row] @ prow)"
      and "\<forall>x \<in> set (L0 @ prow). log_id x \<noteq> log_id row"
  shows "syncLog_update (log_id row) f d
     = (Return (), d\<lparr> syncLogs := L0 @ (if b then prow @ [f row] else [f row] @ prow) \<rparr>)"
  using own_row [of d L0 "\<not> b" row prow f] assms by simp

lemma counted_Suc: "counted pgs (Suc k) = counted pgs k + length (edges (pgs ! k))"
  by (simp add: counted_def)

lemma products_page_ends:
  assumes nxt: "\<forall>k<j. hasNextPage (pgs ! k) \<and> truthy (endCursor (pgs ! k))
                  \<and> list_all well_formed_product (edges (pgs ! k))"
      and split: "edges (pgs ! j) = good @ bad # rest"
      and good: "list_all well_formed_product good"
      and bad: "\<forall>db. fst (syncSingleProduct shopId bad db) = Throw e"
      and k: "k \<le> j"
  shows "ends (\<lambda>r. r = (if k = j then Throw e else Return (counted pgs (Suc k))))
           (syncProductEdges_async shopId (edges (pgs ! k)) (counted pgs k))"
proof (rule ends_mono [OF syncProductEdges_async_ends])
  fix r
  assume r: "\<forall>d'. r = fst (syncProductEdges shopId (edges (pgs ! k)) (counted pgs k) d')"
  show "r = (if k = j then Throw e else Return (counted pgs (Suc k)))"
  proof (cases "k = j")
    case True
    have "fst (syncProductEdges shopId (good @ bad # rest) (counted pgs k) empty_db) = Throw e"
      by (rule syncProductEdges_throws [OF good]) (use bad in blast)
    then show ?thesis using r True split by simp
  next
    case False
    then have "list_all well_formed_product (edges (pgs ! k))" using nxt k by simp
    from syncProductEdges_returns [OF this, of shopId "counted pgs k" empty_db]
    show ?thesis using r False by (simp add: counted_Suc)
  qed
qed

lemma products_step_joint:
  assumes adm: "\<forall>k\<le>j. \<forall>c. pa k c = Return (pgs ! k)"
      and nxt: "\<forall>k<j. hasNextPage (pgs ! k) \<and> truthy (endCursor (pgs ! k))
                  \<and> list_all well_formed_product (edges (pgs ! k))"
      and split: "edges (pgs ! j) = good @ bad # rest"
      and good: "list_all well_formed_product good"
      and bad: "\<forall>db. fst (syncSingleProduct shopId bad db) = Throw e"
      and inv: "joint pgs j e L0 b p c d"
  shows "joint pgs j e L0 b (fst (syncProducts_step pa shopId p d)) c
           (snd (syncProducts_step pa shopId p d))"
proof -
  from inv obtain prow crow where
    logs: "syncLogs d = L0 @ (if b then prow @ crow else crow @ prow)"
    and pr: "products_row pgs j e p prow" and cr: "collections_row c crow"
    and f1: "\<forall>x \<in> set (L0 @ crow). \<forall>r \<in> set prow. log_id x \<noteq> log_id r"
    and f2: "\<forall>x \<in> set L0. \<forall>r \<in> set crow. log_id x \<noteq> log_id r"
    and first: "if b then p \<noteq> AtCreate else c \<noteq> AtCreate"
    unfolding joint_def by blast
  note ends = products_page_ends [OF nxt split good bad]
  have keep: "joint pgs j e L0 b p' c d'"
    if "syncLogs d' = syncLogs d" "products_row pgs j e p' prow" "p' \<noteq> AtCreate" for p' d'
    unfolding joint_def using that logs cr f1 f2 first by (intro exI [of _ prow] exI [of _ crow]) auto
  have change: "joint pgs j e L0 b p' c d'"
    if "prow = [row]" "syncLogs d' = L0 @ (if b then [row'] @ crow else crow @ [row'])"
       "products_row pgs j e p' [row']" "log_id row' = log_id row" "p' \<noteq> AtCreate"
    for p' d' row row'
    unfolding joint_def using that cr f1 f2 first
    by (intro exI [of _ "[row']"] exI [of _ crow]) auto
  show ?thesis
  proof (cases p)
    case AtCreate
    then have b: "\<not> b" and c: "c \<noteq> AtCreate" and e: "prow = []" using first pr by (auto split: if_splits)
    let ?i = "fresh_id (map log_id (syncLogs d))"
    let ?new = "\<lparr> log_id = ?i, log_shopId = shopId, log_syncType = ''initial'',
                log_entityType = ''products'', log_status = ''started'', log_recordsProcessed = None,
                log_recordsTotal = None, log_completedAt = None, log_errorMessage = None \<rparr>"
    have s: "syncProducts_step pa shopId p d = (AtRequest ?i [] None 0, d\<lparr> syncLogs := syncLogs d @ [?new] \<rparr>)"
      using AtCreate by (simp add: syncProducts_step_def createSyncLog_def Let_def)
    have fresh: "\<forall>x \<in> set (syncLogs d). log_id x \<noteq> ?i"
      using fresh_id_gt [of _ "map log_id (syncLogs d)"] by fastforce
    show ?thesis unfolding s fst_conv snd_conv joint_def
      using logs b e cr f2 c fresh
      by (intro exI [of _ "[?new]"] exI [of _ crow])
         (auto simp: started_def counted_def persisted_def)
  next
    case (AtRequest i reqs cur n)
    from pr AtRequest obtain row where row: "prow = [row]" "started ''products'' i row"
      and len: "length reqs \<le> j" and n: "n = counted pgs (length reqs)"
      and rp: "log_recordsProcessed row = persisted pgs (length reqs)"
      by auto
    let ?v = "if truthy cur then cur else None"
    have a: "pa (length reqs) ?v = Return (pgs ! length reqs)" using adm len by blast
    have s: "syncProducts_step pa shopId p d =
        (InPage i (reqs @ [?v]) (pgs ! length reqs)
           (syncProductEdges_async shopId (edges (pgs ! length reqs)) n), d)"
      using AtRequest a by (simp add: syncProducts_step_def Let_def)
    show ?thesis unfolding s fst_conv snd_conv
      by (rule keep) (use row len n rp ends [OF len] in auto)
  next
    case (InPage i reqs pg t)
    from pr InPage obtain row k where row: "prow = [row]" "started ''products'' i row"
      and len: "length reqs = Suc k" and k: "k \<le> j" and pg: "pg = pgs ! k"
      and rp: "log_recordsProcessed row = persisted pgs k"
      and t: "ends (\<lambda>r. r = (if k = j then Throw e else Return (counted pgs (Suc k)))) t"
      by auto
    show ?thesis
    proof (cases t)
      case (Await effect rest)
      with t have l: "syncLogs (effect d) = syncLogs d"
        and r: "ends (\<lambda>r. r = (if k = j then Throw e else Return (counted pgs (Suc k)))) (rest d)"
        by (auto elim: ends.cases)
      have s: "syncProducts_step pa shopId p d = (InPage i reqs pg (rest d), effect d)"
        using InPage Await by (simp add: syncProducts_step_def)
      show ?thesis unfolding s fst_conv snd_conv
        by (rule keep) (use row len k pg rp r l in auto)
    next
      case (Done r)
      with t have r: "r = (if k = j then Throw e else Return (counted pgs (Suc k)))"
        by (auto elim: ends.cases)
      show ?thesis
      proof (cases "k = j")
        case True
        then have s: "syncProducts_step pa shopId p d = (AtFail i reqs e, d)"
          using InPage Done r by (simp add: syncProducts_step_def)
        show ?thesis unfolding s fst_conv snd_conv
          by (rule keep) (use row rp True in auto)
      next
        case False
        then have kj: "k < j" using k by simp
        then have tr: "truthy (if hasNextPage pg then endCursor pg else None)"
          using nxt pg by simp
        have s: "syncProducts_step pa shopId p d =
            (AtUpdate i reqs (if hasNextPage pg then endCursor pg else None) (counted pgs (Suc k)), d)"
          using InPage Done r False by (simp add: syncProducts_step_def)
        show ?thesis unfolding s fst_conv snd_conv
          by (rule keep) (use row rp len kj tr in auto)
      qed
    qed
  next
    case (AtUpdate i reqs cur n)
    from pr AtUpdate obtain row k where row: "prow = [row]" "started ''products'' i row"
      and len: "length reqs = Suc k" and k: "k < j" and n: "n = counted pgs (Suc k)"
      and tr: "truthy cur" and rp: "log_recordsProcessed row = persisted pgs k"
      by auto
    have i: "log_id row = i" using row by (simp add: started_def)
    let ?row' = "row\<lparr> log_recordsProcessed := Some n \<rparr>"
    have u: "updateSyncLog i n d
        = (Return (), d\<lparr> syncLogs := L0 @ (if b then [?row'] @ crow else crow @ [?row']) \<rparr>)"
      unfolding updateSyncLog_def i [symmetric]
      by (rule own_row) (use logs row f1 in auto)
    have s: "syncProducts_step pa shopId p d =
        (AtRequest i reqs cur n, d\<lparr> syncLogs := L0 @ (if b then [?row'] @ crow else crow @ [?row']) \<rparr>)"
      using AtUpdate u tr by (simp add: syncProducts_step_def)
    show ?thesis unfolding s fst_conv snd_conv
      by (rule change [where row = row and row' = ?row'])
         (use row len k n in \<open>auto simp: started_def persisted_def\<close>)
  next
    case (AtComplete i reqs n)
    then show ?thesis using pr by simp
  next
    case (AtFail i reqs e')
    from pr AtFail obtain row where row: "prow = [row]" "started ''products'' i row"
      and e': "e' = e" and rp: "log_recordsProcessed row = persisted pgs j"
      by auto
    have i: "log_id row = i" using row by (simp add: started_def)
    let ?row' = "row\<lparr> log_status := ''failed'', log_errorMessage := Some (message e),
                       log_completedAt := Some (Now (clock d)) \<rparr>"
    have u: "failSyncLog i (message e) d
        = (Return (), d\<lparr> syncLogs := L0 @ (if b then [?row'] @ crow else crow @ [?row']) \<rparr>)"
      unfolding failSyncLog_def i [symmetric]
      by (rule own_row) (use logs row f1 in auto)
    have s: "syncProducts_step pa shopId p d =
        (Settled (Throw e) reqs, d\<lparr> syncLogs := L0 @ (if b then [?row'] @ crow else crow @ [?row']) \<rparr>)"
      using AtFail u e' by (simp add: syncProducts_step_def)
    show ?thesis unfolding s fst_conv snd_conv
      by (rule change [where row = row and row' = ?row']) (use row rp in \<open>auto simp: started_def\<close>)
  next
    case (Settled r reqs)
    then have s: "syncProducts_step pa shopId p d = (p, d)" by (simp add: syncProducts_step_def)
    show ?thesis unfolding s fst_conv snd_conv by (rule inv)
  qed
qed

lemma collections_step_joint:
  assumes inv: "joint pgs j e L0 b p c d"
  shows "joint pgs j e L0 b p (fst (syncCollections_step ca shopId c d))
           (snd (syncCollections_step ca shopId c d))"
proof -
  from inv obtain prow crow where
    logs: "syncLogs d = L0 @ (if b then prow @ crow else crow @ prow)"
    and pr: "products_row pgs j e p prow" and cr: "collections_row c crow"
    and f1: "\<forall>x \<in> set (L0 @ crow). \<forall>r \<in> set prow. log_id x \<noteq> log_id r"
    and f2: "\<forall>x \<in> set L0. \<forall>r \<in> set crow. log_id x \<noteq> log_id r"
    and first: "if b then p \<noteq> AtCreate else c \<noteq> AtCreate"
    unfolding joint_def by blast
  have keep: "joint pgs j e L0 b p c' d'"
    if "syncLogs d' = syncLogs d" "collections_row c' crow" "c' \<noteq> AtCreate" for c' d'
    unfolding joint_def using that logs pr f1 f2 first by (intro exI [of _ prow] exI [of _ crow]) auto
  have change: "joint pgs j e L0 b p c' d'"
    if "crow = [row]" "syncLogs d' = L0 @ (if b then prow @ [row'] else [row'] @ prow)"
       "collections_row c' [row']" "log_id row' = log_id row" "c' \<noteq> AtCreate"
    for c' d' row row'
    unfolding joint_def using that pr f1 f2 first
    by (intro exI [of _ prow] exI [of _ "[row']"]) auto
  have own: "syncLog_update i f d
      = (Return (), d\<lparr> syncLogs := L0 @ (if b then prow @ [f row] else [f row] @ prow) \<rparr>)"
    if "crow = [row]" "started ''collections'' i row" for i row f
  proof -
    have i: "log_id row = i" using that by (simp add: started_def)
    show ?thesis unfolding i [symmetric]
      by (rule other_row) (use logs that f1 f2 in auto)
  qed
  show ?thesis
  proof (cases c)
    case AtCreate
    then have b: "b" and p: "p \<noteq> AtCreate" and e: "crow = []"
      using first cr by (auto split: if_splits)
    let ?i = "fresh_id (map log_id (syncLogs d))"
    let ?new = "\<lparr> log_id = ?i, log_shopId = shopId, log_syncType = ''initial'',
                log_entityType = ''collections'', log_status = ''started'', log_recordsProcessed = None,
                log_recordsTotal = None, log_completedAt = None, log_errorMessage = None \<rparr>"
    have s: "syncCollections_step ca shopId c d
        = (AtRequest ?i [] None 0, d\<lparr> syncLogs := syncLogs d @ [?new] \<rparr>)"
      using AtCreate by (simp add: syncCollections_step_def createSyncLog_def Let_def)
    have fresh: "\<forall>x \<in> set (syncLogs d). log_id x \<noteq> ?i"
      using fresh_id_gt [of _ "map log_id (syncLogs d)"] by fastforce
    show ?thesis unfolding s fst_conv snd_conv joint_def
      using logs b e pr f1 p fresh
      by (intro exI [of _ prow] exI [of _ "[?new]"]) (auto simp: started_def)
  next
    case (AtRequest i reqs cur n)
    from cr AtRequest obtain row where row: "crow = [row]" "started ''collections'' i row"
      by auto
    let ?v = "if truthy cur then cur else None"
    show ?thesis
    proof (cases "ca (length reqs) ?v")
      case (Throw x)
      then have s: "syncCollections_step ca shopId c d = (AtFail i (reqs @ [?v]) x, d)"
        using AtRequest by (simp add: syncCollections_step_def Let_def)
      show ?thesis unfolding s fst_conv snd_conv by (rule keep) (use row in auto)
    next
      case (Return pg)
      then have s: "syncCollections_step ca shopId c d =
          (InPage i (reqs @ [?v]) pg (syncCollectionEdges_async shopId (edges pg) n), d)"
        using AtRequest by (simp add: syncCollections_step_def Let_def)
      show ?thesis unfolding s fst_conv snd_conv
        by (rule keep) (use row syncCollectionEdges_async_ends in auto)
    qed
  next
    case (InPage i reqs pg t)
    from cr InPage obtain row where row: "crow = [row]" "started ''collections'' i row"
      and t: "ends (\<lambda>r. True) t"
      by auto
    show ?thesis
    proof (cases t)
      case (Await effect rest)
      with t have l: "syncLogs (effect d) = syncLogs d" and r: "ends (\<lambda>r. True) (rest d)"
        by (auto elim: ends.cases)
      have s: "syncCollections_step ca shopId c d = (InPage i reqs pg (rest d), effect d)"
        using InPage Await by (simp add: syncCollections_step_def)
      show ?thesis unfolding s fst_conv snd_conv
        by (rule keep) (use row r l in auto)
    next
      case (Done r)
      show ?thesis
      proof (cases r)
        case (Throw x)
        then have s: "syncCollections_step ca shopId c d = (AtFail i reqs x, d)"
          using InPage Done by (simp add: syncCollections_step_def)
        show ?thesis unfolding s fst_conv snd_conv by (rule keep) (use row in auto)
      next
        case (Return n)
        then have s: "syncCollections_step ca shopId c d =
            (AtUpdate i reqs (if hasNextPage pg then endCursor pg else None) n, d)"
          using InPage Done by (simp add: syncCollections_step_def)
        show ?thesis unfolding s fst_conv snd_conv by (rule keep) (use row in auto)
      qed
    qed
  next
    case (AtUpdate i reqs cur n)
    from cr AtUpdate obtain row where row: "crow = [row]" "started ''collections'' i row"
      by auto
    let ?row' = "row\<lparr> log_recordsProcessed := Some n \<rparr>"
    let ?d' = "d\<lparr> syncLogs := L0 @ (if b then prow @ [?row'] else [?row'] @ prow) \<rparr>"
    have u: "updateSyncLog i n d = (Return (), ?d')"
      unfolding updateSyncLog_def by (rule own [OF row])
    have s: "syncCollections_step ca shopId c d =
        (if truthy cur then AtRequest i reqs cur n else AtComplete i reqs n, ?d')"
      using AtUpdate u by (simp add: syncCollections_step_def)
    show ?thesis unfolding s fst_conv snd_conv
      by (rule change [where row = row and row' = ?row']) (use row in \<open>auto simp: started_def\<close>)
  next
    case (AtComplete i reqs n)
    from cr AtComplete obtain row where row: "crow = [row]" "started ''collections'' i row"
      by auto
    let ?row' = "row\<lparr> log_status := ''completed'', log_recordsProcessed := Some n,
               log_recordsTotal := Some n, log_completedAt := Some (Now (clock d)) \<rparr>"
    let ?d' = "d\<lparr> syncLogs := L0 @ (if b then prow @ [?row'] else [?row'] @ prow) \<rparr>"
    have u: "completeSyncLog i n n d = (Return (), ?d')"
      unfolding completeSyncLog_def by (rule own [OF row])
    have s: "syncCollections_step ca shopId c d = (Settled (Return ()) reqs, ?d')"
      using AtComplete u by (simp add: syncCollections_step_def)
    show ?thesis unfolding s fst_conv snd_conv
      by (rule change [where row = row and row' = ?row']) (use row in \<open>auto simp: started_def\<close>)
  next
    case (AtFail i reqs x)
    from cr AtFail obtain row where row: "crow = [row]" "started ''collections'' i row"
      by auto
    let ?row' = "row\<lparr> log_status := ''failed'', log_errorMessage := Some (message x),
                       log_completedAt := Some (Now (clock d)) \<rparr>"
    let ?d' = "d\<lparr> syncLogs := L0 @ (if b then prow @ [?row'] else [?row'] @ prow) \<rparr>"
    have u: "failSyncLog i (message x) d = (Return (), ?d')"
      unfolding failSyncLog_def by (rule own [OF row])
    have s: "syncCollections_step ca shopId c d = (Settled (Throw x) reqs, ?d')"
      using AtFail u by (simp add: syncCollections_step_def)
    show ?thesis unfolding s fst_conv snd_conv
      by (rule change [where row = row and row' = ?row']) (use row in \<open>auto simp: started_def\<close>)
  next
    case (Settled r reqs)
    then have s: "syncCollections_step ca shopId c d = (c, d)"
      by (simp add: syncCollections_step_def)
    show ?thesis unfolding s fst_conv snd_conv by (rule inv)
  qed
qed

lemma joint_first:
  assumes d1: "(if b then syncProducts_step pa shopId AtCreate d0 = (p, d1) \<and> c = AtCreate
               else syncCollections_step ca shopId AtCreate d0 = (c, d1) \<and> p = AtCreate)"
  shows "joint pgs j e (syncLogs d0) b p c d1"
proof -
  let ?i = "fresh_id (map log_id (syncLogs d0))"
  have fresh: "\<forall>x \<in> set (syncLogs d0). log_id x \<noteq> ?i"
    using fresh_id_gt [of _ "map log_id (syncLogs d0)"] by fastforce
  show ?thesis
  proof (cases b)
    case True
    let ?new = "\<lparr> log_id = ?i, log_shopId = shopId, log_syncType = ''initial'',
                log_entityType = ''products'', log_status = ''started'', log_recordsProcessed = None,
                log_recordsTotal = None, log_completedAt = None, log_errorMessage = None \<rparr>"
    from d1 True have "p = AtRequest ?i [] None 0" "d1 = d0\<lparr> syncLogs := syncLogs d0 @ [?new] \<rparr>"
      "c = AtCreate"
      by (auto simp: syncProducts_step_def createSyncLog_def Let_def)
    then show ?thesis unfolding joint_def using True fresh
      by (intro exI [of _ "[?new]"] exI [of _ "[]"])
         (auto simp: started_def counted_def persisted_def)
  next
    case False
    let ?new = "\<lparr> log_id = ?i, log_shopId = shopId, log_syncType = ''initial'',
                log_entityType = ''collections'', log_status = ''started'', log_recordsProcessed = None,
                log_recordsTotal = None, log_completedAt = None, log_errorMessage = None \<rparr>"
    from d1 False have "c = AtRequest ?i [] None 0" "d1 = d0\<lparr> syncLogs := syncLogs d0 @ [?new] \<rparr>"
      "p = AtCreate"
      by (auto simp: syncCollections_step_def createSyncLog_def Let_def)
    then show ?thesis unfolding joint_def using False fresh
      by (intro exI [of _ "[]"] exI [of _ "[?new]"]) (auto simp: started_def)
  qed
qed

lemma joint_run:
  assumes adm: "\<forall>k\<le>j. \<forall>c. pa k c = Return (pgs ! k)"
      and nxt: "\<forall>k<j. hasNextPage (pgs ! k) \<and> truthy (endCursor (pgs ! k))
                  \<and> list_all well_formed_product (edges (pgs ! k))"
      and split: "edges (pgs ! j) = good @ bad # rest"
      and good: "list_all well_formed_product good"
      and bad: "\<forall>db. fst (syncSingleProduct shopId bad db) = Throw e"
      and run: "interleave schedule (syncProducts_step pa shopId) (syncCollections_step ca shopId)
                  AtCreate AtCreate d0 = (p, c, d1)"
      and ne: "schedule \<noteq> []"
  shows "joint pgs j e (syncLogs d0) (hd schedule) p c d1"
proof -
  from ne obtain b bs where s: "schedule = b # bs" by (cases schedule) auto
  let ?sp = "syncProducts_step pa shopId" and ?sc = "syncCollections_step ca shopId"
  define p1 where "p1 = (if b then fst (?sp AtCreate d0) else AtCreate)"
  define c1 where "c1 = (if b then AtCreate else fst (?sc AtCreate d0))"
  define d' where "d' = (if b then snd (?sp AtCreate d0) else snd (?sc AtCreate d0))"
  have r: "interleave bs ?sp ?sc p1 c1 d' = (p, c, d1)"
    using run unfolding s p1_def c1_def d'_def by (cases b) (simp_all add: split_def Let_def)
  have j1: "joint pgs j e (syncLogs d0) b p1 c1 d'"
    by (rule joint_first [where pa = pa and ca = ca and shopId = shopId])
       (simp add: p1_def c1_def d'_def)
  have "case interleave bs ?sp ?sc p1 c1 d' of (p', c', d'') \<Rightarrow> joint pgs j e (syncLogs d0) b p' c' d''"
    by (rule interleave_invariant [where I = "joint pgs j e (syncLogs d0) b", OF j1])
       (rule products_step_joint [OF adm nxt split good bad], assumption,
        rule collections_step_joint, assumption)
  then show ?thesis using r s by simp
qed

text \<open>
  Claim C1 (as amended). When the shop sync has succeeded and the product sync throws on
  a record of page \<open>j + 1\<close>, then under every schedule of the two syncs under which both
  settle: the product sync rejects with the error, the run is reported successful, the
  sync log has the two new rows in the order in which they were created, the products
  row ends failed with the message of the error and with the progress counter of the
  last completed page, which is the number of records of the first \<open>j\<close> pages and is not
  written at all when \<open>j\<close> is 0; the collections row ends completed when the collection
  sync returns. Both do settle under every schedule that gives them the steps of a sync
  over remotes that end the pagination.
\<close>

theorem partial_failure_isolation:
  assumes shop: "syncShopData shopDomain shopQuery d = (Return shopId, d0)"
      and adm: "\<forall>k\<le>j. \<forall>c. pa k c = Return (pgs ! k)"
      and nxt: "\<forall>k<j. hasNextPage (pgs ! k) \<and> truthy (endCursor (pgs ! k))
                  \<and> list_all well_formed_product (edges (pgs ! k))"
      and split: "edges (pgs ! j) = good @ bad # rest"
      and good: "list_all well_formed_product good"
      and bad: "\<forall>db. fst (syncSingleProduct shopId bad db) = Throw e"
  shows "(\<forall>r1 r2 d1.
            allSettled schedule (syncProducts_step pa shopId) (syncCollections_step ca shopId) d0
              = Some ((r1, r2), d1) \<longrightarrow>
            r1 = Throw e
            \<and> (\<exists>res d' shopRow pRow cRow.
                 syncAllData schedule shopDomain shopQuery pa ca d = Some (res, d')
               \<and> success res
               \<and> syncLogs d' = syncLogs d @ shopRow # (if hd schedule then [pRow, cRow] else [cRow, pRow])
               \<and> log_entityType pRow = ''products'' \<and> log_status pRow = ''failed''
               \<and> log_errorMessage pRow = Some (message e)
               \<and> log_recordsProcessed pRow
                    = (if j = 0 then None else Some (\<Sum>k<j. length (edges (pgs ! k))))
               \<and> log_entityType cRow = ''collections''
               \<and> (r2 = Return () \<longrightarrow> log_status cRow = ''completed'')))
       \<and> (\<forall>N M W V.
            last_request pa N \<and> last_request ca M
            \<and> (\<forall>k c pageData. pa k c = Return pageData \<longrightarrow> product_awaits (edges pageData) \<le> W)
            \<and> (\<forall>k c pageData. ca k c = Return pageData \<longrightarrow> collection_awaits (edges pageData) \<le> V)
            \<and> turns N W \<le> count_list schedule True \<and> turns M V \<le> count_list schedule False
            \<longrightarrow> (\<exists>r2 d1. allSettled schedule (syncProducts_step pa shopId)
                            (syncCollections_step ca shopId) d0 = Some ((Throw e, r2), d1)))"
proof -
  let ?sp = "syncProducts_step pa shopId" and ?sc = "syncCollections_step ca shopId"
  obtain p c d1 where run: "interleave schedule ?sp ?sc AtCreate AtCreate d0 = (p, c, d1)"
    by (cases "interleave schedule ?sp ?sc AtCreate AtCreate d0") auto
  have settled: "r1 = Throw e
            \<and> (\<exists>res d' shopRow pRow cRow.
                 syncAllData schedule shopDomain shopQuery pa ca d = Some (res, d')
               \<and> success res
               \<and> syncLogs d' = syncLogs d @ shopRow # (if hd schedule then [pRow, cRow] else [cRow, pRow])
               \<and> log_entityType pRow = ''products'' \<and> log_status pRow = ''failed''
               \<and> log_errorMessage pRow = Some (message e)
               \<and> log_recordsProcessed pRow
                    = (if j = 0 then None else Some (\<Sum>k<j. length (edges (pgs ! k))))
               \<and> log_entityType cRow = ''collections''
               \<and> (r2 = Return () \<longrightarrow> log_status cRow = ''completed''))"
    if a: "allSettled schedule ?sp ?sc d0 = Some ((r1, r2), d1')" for r1 r2 d1'
  proof -
    from a run obtain q1 q2 where p: "p = Settled r1 q1" and c: "c = Settled r2 q2" and d: "d1' = d1"
      by (cases p; cases c) (auto simp: allSettled_def)
    have ne: "schedule \<noteq> []" using run p by auto
    from joint_run [OF adm nxt split good bad run ne] p c
    obtain pRow cRow where
      logs: "syncLogs d1 = syncLogs d0 @ (if hd schedule then [pRow] @ [cRow] else [cRow] @ [pRow])"
      and r1: "r1 = Throw e"
      and pr: "log_entityType pRow = ''products''" "log_status pRow = ''failed''"
        "log_errorMessage pRow = Some (message e)" "log_recordsProcessed pRow = persisted pgs j"
      and cr: "log_entityType cRow = ''collections''" "r2 = Return () \<longrightarrow> log_status cRow = ''completed''"
      unfolding joint_def by auto
    from syncShopData_logs [OF shop] obtain shopRow where
      l0: "syncLogs d0 = syncLogs d @ [shopRow]" by blast
    from syncAllData_settled [OF shop run] p c
    obtain res d' where res: "syncAllData schedule shopDomain shopQuery pa ca d = Some (res, d')"
      and ok: "success res" and l': "syncLogs d' = syncLogs d1"
      by simp
    have "syncLogs d' = syncLogs d @ shopRow # (if hd schedule then [pRow, cRow] else [cRow, pRow])"
      using l' logs l0 by simp
    moreover have "log_recordsProcessed pRow
        = (if j = 0 then None else Some (\<Sum>k<j. length (edges (pgs ! k))))"
      using pr(4) by (simp add: persisted_def counted_def)
    ultimately show ?thesis using r1 res ok pr cr by blast
  qed
  have live: "\<exists>r2 d1. allSettled schedule ?sp ?sc d0 = Some ((Throw e, r2), d1)"
    if a: "last_request pa N \<and> last_request ca M
            \<and> (\<forall>k c pageData. pa k c = Return pageData \<longrightarrow> product_awaits (edges pageData) \<le> W)
            \<and> (\<forall>k c pageData. ca k c = Return pageData \<longrightarrow> collection_awaits (edges pageData) \<le> V)
            \<and> turns N W \<le> count_list schedule True \<and> turns M V \<le> count_list schedule False"
    for N M W V
  proof -
    from a have "is_settled p \<and> is_settled c"
      by (intro both_settle [OF _ _ _ _ _ _ run, of N M W V]) blast+
    then obtain r1 q1 r2 q2 where "p = Settled r1 q1" "c = Settled r2 q2"
      by (cases p; cases c) simp_all
    then have s: "allSettled schedule ?sp ?sc d0 = Some ((r1, r2), d1)"
      using run by (simp add: allSettled_def)
    from settled [OF s] have "r1 = Throw e" by blast
    then show ?thesis using s by blast
  qed
  show ?thesis using settled live by blast
qed

lemma two_pages_run:
  "map_option fst
     (allSettled taking_turns (syncProducts_step (scripted five_products_two_pages) 1)
        (syncCollections_step (scripted small_collection_page) 1) synced_shop)
   = Some (Throw (SyntaxError ''Cannot convert oops to a BigInt''), Return ())"
  by (simp add: allSettled_def taking_turns_eq async_eval store_eval BigInt_eval
      five_products_two_pages_def small_collection_page_def)

theorem partial_failure_isolation_witness:
  "syncShopData ''demo.myshopify.com'' demo_shop empty_db = (Return 1, synced_shop)
   \<and> (\<exists>d1. allSettled taking_turns (syncProducts_step (scripted five_products_two_pages) 1)
              (syncCollections_step (scripted small_collection_page) 1) synced_shop
            = Some ((Throw (SyntaxError ''Cannot convert oops to a BigInt''), Return ()), d1))
   \<and> (\<exists>res d' shopRow pRow cRow.
         syncAllData taking_turns ''demo.myshopify.com'' demo_shop (scripted five_products_two_pages)
           (scripted small_collection_page) empty_db = Some (res, d')
       \<and> success res
       \<and> syncLogs d' = [shopRow, pRow, cRow]
       \<and> log_status pRow = ''failed'' \<and> log_recordsProcessed pRow = Some 2
       \<and> log_errorMessage pRow = Some ''Cannot convert oops to a BigInt''
       \<and> log_status cRow = ''completed'')
   \<and> last_request (scripted five_products_two_pages) 1
   \<and> last_request (scripted small_collection_page) 0
   \<and> turns 1 6 \<le> count_list taking_turns True \<and> turns 0 4 \<le> count_list taking_turns False"
proof -
  let ?bad = "a_product ''gid://shopify/Product/oops'' ''gid://shopify/ProductVariant/31''"
  let ?e = "SyntaxError ''Cannot convert oops to a BigInt''"
  let ?sp = "syncProducts_step (scripted five_products_two_pages) 1"
  let ?sc = "syncCollections_step (scripted small_collection_page) 1"
  have adm: "\<forall>k\<le>1. \<forall>c. scripted five_products_two_pages k c = Return (five_products_two_pages ! k)"
    by (simp add: scripted_def five_products_two_pages_def)
  have nxt: "\<forall>k<1. hasNextPage (five_products_two_pages ! k)
      \<and> truthy (endCursor (five_products_two_pages ! k))
      \<and> list_all well_formed_product (edges (five_products_two_pages ! k))"
    by (simp add: five_products_two_pages_def well_formed_product_def a_product_def BigInt_eval)
  have split: "edges (five_products_two_pages ! 1) = [] @ ?bad #
      [a_product ''gid://shopify/Product/4'' ''gid://shopify/ProductVariant/41'',
       a_product ''gid://shopify/Product/5'' ''gid://shopify/ProductVariant/51'']"
    by (simp add: five_products_two_pages_def)
  have good: "list_all well_formed_product []" by simp
  have bad: "\<forall>db. fst (syncSingleProduct 1 ?bad db) = Throw ?e"
    by (simp add: syncSingleProduct_def a_product_def BigInt_eval)
  note T = partial_failure_isolation [OF demo_shop_synced adm nxt split good bad,
      of taking_turns "scripted small_collection_page"]
  from two_pages_run obtain d1 where
    run: "allSettled taking_turns ?sp ?sc synced_shop = Some ((Throw ?e, Return ()), d1)"
    by (cases "allSettled taking_turns ?sp ?sc synced_shop") auto
  have e: "syncLogs empty_db = []" by (simp add: empty_db_def)
  have sum: "(\<Sum>k<(1::nat). length (edges (five_products_two_pages ! k))) = 2"
    by (simp add: five_products_two_pages_def)
  from T [THEN conjunct1, rule_format, OF run]
  have rows: "\<exists>res d' shopRow pRow cRow.
         syncAllData taking_turns ''demo.myshopify.com'' demo_shop (scripted five_products_two_pages)
           (scripted small_collection_page) empty_db = Some (res, d')
       \<and> success res
       \<and> syncLogs d' = [shopRow, pRow, cRow]
       \<and> log_status pRow = ''failed'' \<and> log_recordsProcessed pRow = Some 2
       \<and> log_errorMessage pRow = Some ''Cannot convert oops to a BigInt''
       \<and> log_status cRow = ''completed''"
    using e sum taking_turns_count(3) by auto
  have last: "last_request (scripted five_products_two_pages) 1"
    "last_request (scripted small_collection_page) 0"
    using scripted_last [of five_products_two_pages] scripted_last [of small_collection_page]
    by (simp_all add: five_products_two_pages_def small_collection_page_def)
  have work: "\<forall>k c pageData. scripted five_products_two_pages k c = Return pageData
      \<longrightarrow> product_awaits (edges pageData) \<le> 6"
    "\<forall>k c pageData. scripted small_collection_page k c = Return pageData
      \<longrightarrow> collection_awaits (edges pageData) \<le> 4"
    by (auto dest!: scripted_pages
        simp: five_products_two_pages_def small_collection_page_def a_product_def
          product_awaits_def collection_awaits_def)
  have t: "turns 1 6 \<le> count_list taking_turns True" "turns 0 4 \<le> count_list taking_turns False"
    by (simp_all add: turns_def taking_turns_count)
  from T [THEN conjunct2, rule_format, of 1 0 6 4] last work t
  have "\<exists>r2 d1. allSettled taking_turns ?sp ?sc synced_shop = Some ((Throw ?e, r2), d1)"
    by blast
  then have ex: "\<exists>d1. allSettled taking_turns ?sp ?sc synced_shop = Some ((Throw ?e, Return ()), d1)"
    using run by simp
  show ?thesis using demo_shop_synced ex rows last t by (intro conjI)
qed

text \<open>
  The claim as written fails when the five records arrive in one page, as they do with a
  page size of fifty: two products are stored, the third record throws, and the products
  log row ends failed with a progress counter that was never written, not 2.
\<close>

theorem partial_failure_counterexample:
  "map_option (\<lambda>(res, d'). (success res,
       map (\<lambda>r. (log_entityType r, log_status r, log_recordsProcessed r)) (syncLogs d'),
       map product_productId (products d')))
     (syncAllData taking_turns ''demo.myshopify.com'' demo_shop (scripted five_products_one_page)
        (scripted small_collection_page) empty_db)
   = Some (True,
       [(''shop'', ''completed'', Some 1), (''products'', ''failed'', None),
        (''collections'', ''completed'', Some 1)],
       [1, 2])"
  by (simp add: syncAllData_def allSettled_def shop_update_lastSyncAt_def taking_turns_eq
      async_eval store_eval BigInt_eval five_products_one_page_def small_collection_page_def)

section \<open>Theorems: upsert\<close>

lemma upsert_again:
  assumes m: "\<And>x. matches (u x) = matches x" and c: "matches c"
      and vu: "\<And>x. v (u x) = w (u x)" and vc: "v c = w c"
  shows "upsert matches v c' (snd (upsert matches u c rows))
           = (w (fst (upsert matches u c rows)),
              map (\<lambda>x. if matches x then w x else x) (snd (upsert matches u c rows)))"
proof (cases "find matches rows")
  case None
  then have no: "\<forall>x \<in> set rows. \<not> matches x" by (simp add: find_None_iff)
  then have keep: "\<And>f. map (\<lambda>x. if matches x then f x else x) rows = rows"
    by (simp add: map_idI)
  have "find matches (rows @ [c]) = Some c" using None c by (simp add: find_append_if)
  then show ?thesis using None c vc keep by (simp add: upsert_def)
next
  case (Some r)
  have f: "find matches (map (\<lambda>x. if matches x then u x else x) rows) = Some (u r)"
    using find_map_update [of matches u rows, OF m] Some by simp
  have "map (\<lambda>x. if matches x then v x else x) (map (\<lambda>x. if matches x then u x else x) rows)
      = map (\<lambda>x. if matches x then w x else x) (map (\<lambda>x. if matches x then u x else x) rows)"
    using m vu by (induction rows) auto
  then show ?thesis using Some f vu by (simp add: upsert_def)
qed

lemma distinct_key_filter:
  "distinct (map key rows) \<Longrightarrow> r \<in> set rows \<Longrightarrow> filter (\<lambda>x. key x = key r) rows = [r]"
proof (induction rows)
  case Nil
  then show ?case by simp
next
  case (Cons a rows)
  show ?case
  proof (cases "a = r")
    case True
    have "key r \<notin> key ` set rows" using Cons.prems(1) True by simp
    then have "\<forall>x \<in> set rows. key x \<noteq> key r" by (metis imageI)
    then have "filter (\<lambda>x. key x = key r) rows = []" by (simp add: filter_empty_conv)
    then show ?thesis using True by simp
  next
    case False
    then have "r \<in> set rows" using Cons.prems(2) by simp
    moreover have "key a \<noteq> key r" using Cons.prems(1) \<open>r \<in> set rows\<close> by auto
    ultimately show ?thesis using Cons by simp
  qed
qed

lemma upsert_one_row:
  assumes d: "distinct (map key rows)" and ku: "\<And>x. key (u x) = key x" and kc: "key c = k"
  shows "filter (\<lambda>x. key x = k) (snd (upsert (\<lambda>x. key x = k) u c rows))
           = [fst (upsert (\<lambda>x. key x = k) u c rows)]
         \<and> distinct (map key (snd (upsert (\<lambda>x. key x = k) u c rows)))"
proof (cases "find (\<lambda>x. key x = k) rows")
  case None
  then have no: "\<forall>x \<in> set rows. key x \<noteq> k" by (simp add: find_None_iff)
  then have "filter (\<lambda>x. key x = k) rows = []" by (simp add: filter_empty_conv)
  moreover have "k \<notin> key ` set rows" using no by auto
  ultimately show ?thesis using None d kc by (simp add: upsert_def)
next
  case (Some r)
  let ?rows1 = "map (\<lambda>x. if key x = k then u x else x) rows"
  have keys: "map key ?rows1 = map key rows" using ku by (induction rows) auto
  have r: "r \<in> set rows" "key r = k" using Some by (auto simp: find_Some_iff)
  then have ur: "u r \<in> set ?rows1" by force
  have d1: "distinct (map key ?rows1)" by (subst keys) (rule d)
  have "filter (\<lambda>x. key x = key (u r)) ?rows1 = [u r]"
    using d1 ur by (rule distinct_key_filter)
  then have "filter (\<lambda>x. key x = k) ?rows1 = [u r]" using ku r(2) by simp
  then show ?thesis using Some d1 by (simp add: upsert_def del: map_map)
qed

section \<open>Theorems: order line items\<close>

lemma set_field_twice [simp]: "set_field f (set_field f old) = set_field f old"
  by (cases f) simp_all

lemma resolve_returns:
  "returns (resolve pre ref lookup) = (case ref of None \<Rightarrow> True | Some gid \<Rightarrow> returns (remote_id pre gid))"
  by (auto simp: resolve_def split: option.splits outcome.splits)

lemma syncLineItems_returns:
  "(fst (syncLineItems oid items d) = Return ()) = list_all lineItem_ok items"
proof (induction items arbitrary: d)
  case Nil
  then show ?case by simp
next
  case (Cons li items)
  let ?v = "resolve ''gid://shopify/ProductVariant/'' (li_variant li)
             (\<lambda>i. map_option variant_id (productVariant_findUnique i d))"
  let ?p = "resolve ''gid://shopify/Product/'' (li_product li)
                  (\<lambda>i. map_option product_id (product_findUnique i d))"
  have ok: "lineItem_ok li = (returns ?v \<and> returns ?p)"
    by (simp add: lineItem_ok_def resolve_returns)
  show ?case
  proof (cases ?v)
    case (Throw e)
    then show ?thesis using ok by simp
  next
    case V: (Return a)
    show ?thesis
    proof (cases ?p)
      case (Throw e)
      then show ?thesis using ok V by simp
    next
      case (Return b)
      then show ?thesis using ok V Cons.IH by simp
    qed
  qed
qed

lemma line_data_frame:
  "productVariants e = productVariants d \<Longrightarrow> products e = products d \<Longrightarrow>
     line_data oid items e = line_data oid items d"
  by (simp add: line_data_def productVariant_findUnique_def product_findUnique_def
      cong: option.case_cong outcome.case_cong)

lemma resolve_value:
  "resolve pre ref lookup = Return a \<Longrightarrow>
     a = (case ref of None \<Rightarrow> None
          | Some gid \<Rightarrow> (case remote_id pre gid of Throw e \<Rightarrow> None | Return i \<Rightarrow> lookup i))"
  by (auto simp: resolve_def split: option.splits outcome.splits)

lemma syncLineItems_result:
  "syncLineItems oid items d = (Return (), d') \<Longrightarrow>
     \<exists>new. d' = d\<lparr> orderItems := orderItems d @ new \<rparr>
        \<and> map item_data new = line_data oid items d"
proof (induction items arbitrary: d)
  case Nil
  then show ?case by (simp add: line_data_def)
next
  case (Cons li items)
  let ?v = "resolve ''gid://shopify/ProductVariant/'' (li_variant li)
             (\<lambda>i. map_option variant_id (productVariant_findUnique i d))"
  let ?p = "resolve ''gid://shopify/Product/'' (li_product li)
                  (\<lambda>i. map_option product_id (product_findUnique i d))"
  from Cons.prems obtain a b where v: "?v = Return a" and p: "?p = Return b" and
    run: "syncLineItems oid items (orderItem_create oid a b li d) = (Return (), d')"
    by (auto split: outcome.splits)
  let ?d1 = "orderItem_create oid a b li d"
  from Cons.IH [OF run] obtain new where
    n: "d' = ?d1\<lparr> orderItems := orderItems ?d1 @ new \<rparr>"
      "map item_data new = line_data oid items ?d1"
    by blast
  let ?x = "\<lparr> item_id = fresh_id (map item_id (orderItems d)), item_orderId = oid,
            item_productVariantId = a, item_productId = b,
            item_quantity = li_quantity li, item_price = ParseFloat (li_amount li) \<rparr>"
  have fr: "line_data oid items ?d1 = line_data oid items d"
    by (rule line_data_frame) (simp_all add: orderItem_create_def)
  have "d' = d\<lparr> orderItems := orderItems d @ (?x # new) \<rparr>"
    using n(1) by (simp add: orderItem_create_def)
  moreover have "map item_data (?x # new) = line_data oid (li # items) d"
    using n(2) fr resolve_value [OF v] resolve_value [OF p]
    by (simp add: line_data_def item_data_def)
  ultimately show ?case by blast
qed

lemma upsert_others:
  assumes m: "\<And>x. matches (u x) = matches x" and c: "matches c"
      and r: "r \<in> set (snd (upsert matches u c rows))" and n: "\<not> matches r"
  shows "r \<in> set rows"
proof (cases "find matches rows")
  case None
  then show ?thesis using r c n by (auto simp: upsert_def)
next
  case (Some y)
  then have "r \<in> set (map (\<lambda>x. if matches x then u x else x) rows)"
    using r by (simp add: upsert_def)
  then obtain x where x: "x \<in> set rows" "r = (if matches x then u x else x)" by auto
  then show ?thesis using m n by (cases "matches x") auto
qed

lemma upsert_orderAddress_twice:
  "upsert_orderAddress oid a (upsert_orderAddress oid a rows) = upsert_orderAddress oid a rows"
proof -
  let ?m = "\<lambda>r. oaddr_orderId r = oid"
  let ?u = "\<lambda>r. r\<lparr> oaddr_fields := a \<rparr>"
  let ?c = "\<lparr> oaddr_orderId = oid, oaddr_fields = a \<rparr>"
  have "upsert ?m ?u ?c (snd (upsert ?m ?u ?c rows))
      = ((\<lambda>x. x) (fst (upsert ?m ?u ?c rows)),
         map (\<lambda>x. if ?m x then (\<lambda>x. x) x else x) (snd (upsert ?m ?u ?c rows)))"
    by (rule upsert_again) simp_all
  then show ?thesis by (simp add: upsert_orderAddress_def)
qed

lemma syncOrderAddresses_twice:
  assumes "shippingAddresses e = shippingAddresses (syncOrderAddresses oid od d)"
      and "billingAddresses e = billingAddresses (syncOrderAddresses oid od d)"
  shows "syncOrderAddresses oid od e = e"
  using assms
  by (cases "on_shippingAddress od"; cases "on_billingAddress od")
     (simp_all add: syncOrderAddresses_def upsert_orderAddress_twice)

lemma syncOrderAddresses_frame:
  "orders (syncOrderAddresses oid od d) = orders d"
  "orderItems (syncOrderAddresses oid od d) = orderItems d"
  "customers (syncOrderAddresses oid od d) = customers d"
  "products (syncOrderAddresses oid od d) = products d"
  "productVariants (syncOrderAddresses oid od d) = productVariants d"
  by (simp_all add: syncOrderAddresses_def Let_def split: option.splits)

lemma upsert_order_again:
  assumes run: "upsert_order s i num c od d = (Return row, d1)"
      and e: "orders e = orders d1"
  shows "upsert_order s i num c od e = (Return row, e)"
proof -
  let ?m = "\<lambda>r. order_orderId r = i"
  let ?u = "\<lambda>r. r\<lparr> order_orderNumber := num,
                      order_email := set_field (on_email od) (order_email r),
                      order_financialStatus := set_field (on_financialStatus od) (order_financialStatus r),
                      order_fulfillmentStatus := set_field (on_fulfillmentStatus od) (order_fulfillmentStatus r),
                      order_totalPrice := map_option ParseFloat (on_totalPrice od),
                      order_currency := set_field (on_currencyCode od) (order_currency r),
                      order_customerId := set_field c (order_customerId r),
                      order_updatedAt := DateOf (on_updatedAt od) \<rparr>"
  let ?c = "\<lambda>d. \<lparr> order_id = fresh_id (map order_id (orders d)),
               order_orderId = i, order_shopId = s, order_orderNumber = num,
               order_email = set_field (on_email od) None,
               order_financialStatus = set_field (on_financialStatus od) None,
               order_fulfillmentStatus = set_field (on_fulfillmentStatus od) None,
               order_totalPrice = map_option ParseFloat (on_totalPrice od),
               order_currency = set_field (on_currencyCode od) None,
               order_customerId = set_field c None,
               order_createdAt = DateOf (on_createdAt od),
               order_updatedAt = DateOf (on_updatedAt od) \<rparr>"
  from run have free: "\<not> (\<exists>r \<in> set (orders d). order_orderNumber r = num \<and> order_orderId r \<noteq> i)"
    by (auto simp: upsert_order_def split: if_splits)
  from run free have r: "row = fst (upsert ?m ?u (?c d) (orders d))"
    and d1: "orders d1 = snd (upsert ?m ?u (?c d) (orders d))"
    by (auto simp: upsert_order_def split_def Let_def)
  have "\<And>r. r \<in> set (orders d1) \<Longrightarrow> order_orderId r \<noteq> i \<Longrightarrow> r \<in> set (orders d)"
    unfolding d1 by (rule upsert_others [where matches = ?m and u = ?u and c = "?c d"]) simp_all
  then have free1: "\<not> (\<exists>r \<in> set (orders d1). order_orderNumber r = num \<and> order_orderId r \<noteq> i)"
    using free by blast
  have "upsert ?m ?u (?c e) (snd (upsert ?m ?u (?c d) (orders d)))
      = ((\<lambda>x. x) (fst (upsert ?m ?u (?c d) (orders d))),
         map (\<lambda>x. if ?m x then (\<lambda>x. x) x else x) (snd (upsert ?m ?u (?c d) (orders d))))"
    by (rule upsert_again) simp_all
  then have "upsert ?m ?u (?c e) (orders e) = (row, orders e)"
    using r d1 e by simp
  then show ?thesis using free1 e by (simp add: upsert_order_def)
qed

lemma upsert_order_frame:
  assumes "upsert_order s i num c od d = (Return row, d1)"
  shows "d1 = d\<lparr> orders := orders d1 \<rparr>" "length (orders d) \<le> length (orders d1)"
  using assms by (auto simp: upsert_order_def upsert_def split_def Let_def split: if_splits option.splits)

lemma find_customer_frame:
  "customers e = customers d \<Longrightarrow> find_customer od e = find_customer od d"
  by (simp add: find_customer_def customer_findUnique_def cong: option.case_cong outcome.case_cong)

lemma line_data_owner:
  assumes "map item_data new = line_data oid items d"
  shows "\<forall>x \<in> set new. item_orderId x = oid"
proof
  fix x assume "x \<in> set new"
  then have "item_data x \<in> set (map item_data new)" by simp
  then have "item_data x \<in> set (line_data oid items d)" using assms by simp
  then show "item_orderId x = oid" by (auto simp: line_data_def item_data_def)
qed

text \<open>
  Claim C7. A run of \<open>syncSingleOrder\<close> that returns appends one new OrderItem row per
  line item and changes no row that was there. A second run on the result with the same
  order, at any later time, returns as well: it leaves the table of orders as it is, so
  the order is not duplicated, and appends the same line items once more, under new
  primary keys; the order then has twice as many new rows as it has line items.
\<close>

theorem order_items_duplicated:
  assumes run: "syncSingleOrder shopId od d = (Return (), d1)"
  shows "\<exists>d2 new1 new2 row.
           syncSingleOrder shopId od (later t d1) = (Return (), d2)
         \<and> orders d2 = orders d1
         \<and> row \<in> set (orders d1) \<and> remote_id ''gid://shopify/Order/'' (on_id od) = Return (order_orderId row)
         \<and> orderItems d1 = orderItems d @ new1
         \<and> orderItems d2 = orderItems d1 @ new2
         \<and> length new1 = length (on_lineItems od)
         \<and> map item_data new1 = line_data (order_id row) (on_lineItems od) d
         \<and> map item_data new2 = map item_data new1
         \<and> length (filter (\<lambda>x. item_orderId x = order_id row) (orderItems d2))
             = length (filter (\<lambda>x. item_orderId x = order_id row) (orderItems d))
               + 2 * length (on_lineItems od)"
proof -
  from run obtain i where i: "remote_id ''gid://shopify/Order/'' (on_id od) = Return i"
    by (cases "remote_id ''gid://shopify/Order/'' (on_id od)") (auto simp: syncSingleOrder_def)
  from run i obtain c where c: "find_customer od d = Return c"
    by (cases "find_customer od d") (auto simp: syncSingleOrder_def)
  from run i c obtain num where num: "on_orderNumber od = Some num"
    by (cases "on_orderNumber od") (auto simp: syncSingleOrder_def)
  obtain r1 da where u0: "upsert_order shopId i (toString num) c od d = (r1, da)"
    by (cases "upsert_order shopId i (toString num) c od d")
  from run i c num u0 obtain row where r1: "r1 = Return row"
    by (cases r1) (auto simp: syncSingleOrder_def)
  note u = u0 [unfolded r1]
  obtain r2 db where l0: "syncLineItems (order_id row) (on_lineItems od) da = (r2, db)"
    by (cases "syncLineItems (order_id row) (on_lineItems od) da")
  from run i c num u l0 have r2: "r2 = Return ()"
    by (cases r2) (auto simp: syncSingleOrder_def)
  note l = l0 [unfolded r2]
  from run i c num u l have d1: "d1 = syncOrderAddresses (order_id row) od db"
    by (simp add: syncSingleOrder_def)
  from syncLineItems_result [OF l] obtain new1 where
    db: "db = da\<lparr> orderItems := orderItems da @ new1 \<rparr>"
    and n1: "map item_data new1 = line_data (order_id row) (on_lineItems od) da"
    by blast
  note fa = upsert_order_frame [OF u]
  have da_items: "orderItems da = orderItems d" "customers da = customers d"
    "products da = products d" "productVariants da = productVariants d"
    by (subst fa(1), simp)+
  have ld: "line_data (order_id row) (on_lineItems od) da = line_data (order_id row) (on_lineItems od) d"
    by (rule line_data_frame) (simp_all add: da_items)
  have ok: "list_all lineItem_ok (on_lineItems od)"
    using syncLineItems_returns [of "order_id row" "on_lineItems od" da] l by simp
  let ?e = "later t d1"
  have tabs: "orders ?e = orders da" "orderItems ?e = orderItems d @ new1"
    "customers ?e = customers d" "products ?e = products d" "productVariants ?e = productVariants d"
    unfolding later_def d1
    by (simp_all add: syncOrderAddresses_frame db da_items)
  have c2: "find_customer od ?e = Return c"
    using find_customer_frame [OF tabs(3)] c by simp
  have u2: "upsert_order shopId i (toString num) c od ?e = (Return row, ?e)"
    using u tabs(1) by (rule upsert_order_again)
  obtain r3 dc where l20: "syncLineItems (order_id row) (on_lineItems od) ?e = (r3, dc)"
    by (cases "syncLineItems (order_id row) (on_lineItems od) ?e")
  have "r3 = Return ()"
    using syncLineItems_returns [of "order_id row" "on_lineItems od" ?e] ok l20 by simp
  note l2 = l20 [unfolded this]
  from syncLineItems_result [OF l2] obtain new2 where
    dc: "dc = ?e\<lparr> orderItems := orderItems ?e @ new2 \<rparr>"
    and n2: "map item_data new2 = line_data (order_id row) (on_lineItems od) ?e"
    by blast
  have ld2: "line_data (order_id row) (on_lineItems od) ?e = line_data (order_id row) (on_lineItems od) d"
    by (rule line_data_frame) (simp_all add: tabs)
  have addr: "syncOrderAddresses (order_id row) od dc = dc"
    by (rule syncOrderAddresses_twice) (simp_all add: dc later_def d1)
  have run2: "syncSingleOrder shopId od ?e = (Return (), dc)"
    using i c2 num u2 l2 addr by (simp add: syncSingleOrder_def)
  have o2: "orders dc = orders d1"
    by (simp add: dc later_def)
  have rowin: "row \<in> set (orders d1)" "order_orderId row = i"
  proof -
    have "find (\<lambda>r. order_orderId r = i) (orders da) = Some row"
      using u by (auto simp: upsert_order_def split_def Let_def upsert_find split: if_splits)
    then have "row \<in> set (orders da)" "order_orderId row = i"
      by (auto simp: find_Some_iff)
    then show "row \<in> set (orders d1)" "order_orderId row = i"
      using tabs(1) by (simp_all add: later_def)
  qed
  have i1: "orderItems d1 = orderItems d @ new1" using tabs(2) by (simp add: later_def)
  have i2: "orderItems dc = orderItems d1 @ new2" using i1 tabs(2) by (simp add: dc)
  have len: "length new1 = length (on_lineItems od)"
    using arg_cong [OF n1, of length] by (simp add: line_data_def)
  have n2': "map item_data new2 = map item_data new1" using n1 n2 ld ld2 by simp
  have len2: "length new2 = length (on_lineItems od)"
    using arg_cong [OF n2', of length] len by simp
  have own1: "\<forall>x \<in> set new1. item_orderId x = order_id row"
    using n1 by (rule line_data_owner)
  have own2: "\<forall>x \<in> set new2. item_orderId x = order_id row"
    using n2 by (rule line_data_owner)
  have cnt: "length (filter (\<lambda>x. item_orderId x = order_id row) (orderItems dc))
             = length (filter (\<lambda>x. item_orderId x = order_id row) (orderItems d))
               + 2 * length (on_lineItems od)"
    using own1 own2 len len2 by (simp add: i2 i1)
  show ?thesis
    using run2 o2 rowin i i1 i2 len n1 ld n2' cnt by auto
qed

lemmas order_eval =
  syncSingleOrder_def find_customer_def upsert_order_def toString_def orderItem_create_def
  resolve_def productVariant_findUnique_def syncOrderAddresses_def later_def an_order_def
  one_product_db_def

theorem order_items_duplicated_witness:
  "fst (syncSingleOrder 1 an_order one_product_db) = Return ()
   \<and> map item_orderId (orderItems (snd (syncSingleOrder 1 an_order one_product_db))) = [1, 1]
   \<and> (\<exists>d2. syncSingleOrder 1 an_order (later 7 (snd (syncSingleOrder 1 an_order one_product_db)))
               = (Return (), d2)
           \<and> length (orders d2) = 1
           \<and> length (filter (\<lambda>x. item_orderId x = 1) (orderItems d2)) = 4)"
proof -
  let ?d1 = "snd (syncSingleOrder 1 an_order one_product_db)"
  have r: "fst (syncSingleOrder 1 an_order one_product_db) = Return ()"
    and it: "map item_orderId (orderItems ?d1) = [1, 1]"
    and os: "map order_id (orders ?d1) = [1]"
    and d0: "orderItems one_product_db = []"
    and n: "length (on_lineItems an_order) = 2"
    by (simp_all add: order_eval store_eval BigInt_eval)
  from r have run: "syncSingleOrder 1 an_order one_product_db = (Return (), ?d1)"
    by (simp add: prod_eq_iff)
  from order_items_duplicated [OF run, of 7] obtain d2 row where
    run2: "syncSingleOrder 1 an_order (later 7 ?d1) = (Return (), d2)"
    and o: "orders d2 = orders ?d1" and rw: "row \<in> set (orders ?d1)"
    and cnt: "length (filter (\<lambda>x. item_orderId x = order_id row) (orderItems d2))
             = length (filter (\<lambda>x. item_orderId x = order_id row) (orderItems one_product_db))
               + 2 * length (on_lineItems an_order)"
    by blast
  from rw have "order_id row \<in> set (map order_id (orders ?d1))" by simp
  then have "order_id row \<in> set [1]" unfolding os .
  then have "order_id row = 1" by simp
  then have "length (filter (\<lambda>x. item_orderId x = 1) (orderItems d2)) = 4"
    using cnt d0 n by simp
  moreover have "length (orders d2) = 1" using o arg_cong [OF os, of length] by simp
  ultimately show ?thesis using r it run2 by blast
qed

section \<open>Theorems: idempotent upserts\<close>

lemma upsert_again_noop:
  assumes "\<forall>x. matches (u x) = matches x" and "matches c"
      and "\<forall>x. u (u x) = u x" and "u c = c"
  shows "upsert matches u c' (snd (upsert matches u c rows))
           = (fst (upsert matches u c rows), snd (upsert matches u c rows))"
proof -
  have "upsert matches u c' (snd (upsert matches u c rows))
      = ((\<lambda>x. x) (fst (upsert matches u c rows)),
         map (\<lambda>x. if matches x then (\<lambda>x. x) x else x) (snd (upsert matches u c rows)))"
    using assms by (intro upsert_again) simp_all
  then show ?thesis by simp
qed

lemma upsert_product_twice:
  "upsert_product s i p (later t (snd (upsert_product s i p d)))
     = (fst (upsert_product s i p d), later t (snd (upsert_product s i p d)))"
  by (simp add: upsert_product_def later_def split_def Let_def upsert_again_noop)

lemma upsert_variant_twice:
  "upsert_variant pl i v (later t (snd (upsert_variant pl i v d)))
     = (fst (upsert_variant pl i v d), later t (snd (upsert_variant pl i v d)))"
  by (simp add: upsert_variant_def later_def split_def Let_def upsert_again_noop)

lemma upsert_customer_twice:
  "upsert_customer s i c (later t (snd (upsert_customer s i c d)))
     = (fst (upsert_customer s i c d), later t (snd (upsert_customer s i c d)))"
  by (simp add: upsert_customer_def later_def split_def Let_def upsert_again_noop)

lemma upsert_customerAddress_twice:
  "upsert_customerAddress cl i a (later t (snd (upsert_customerAddress cl i a d)))
     = (fst (upsert_customerAddress cl i a d), later t (snd (upsert_customerAddress cl i a d)))"
  by (simp add: upsert_customerAddress_def later_def split_def Let_def upsert_again_noop)

lemma upsert_image_twice:
  "upsert_image pl i im (later t (snd (upsert_image pl i im d)))
     = ((fst (upsert_image pl i im d))\<lparr> image_updatedAt := Some (Now t) \<rparr>,
        (later t (snd (upsert_image pl i im d)))
          \<lparr> productImages :=
              map (\<lambda>x. if image_imageId x = i then x\<lparr> image_updatedAt := Some (Now t) \<rparr> else x)
                (productImages (snd (upsert_image pl i im d))) \<rparr>)"
proof -
  let ?m = "\<lambda>r. image_imageId r = i"
  let ?u = "\<lambda>c r. r\<lparr> image_alt := in_altText im, image_width := in_width im,
                   image_height := in_height im, image_src := in_url im,
                   image_updatedAt := Some (Now c) \<rparr>"
  let ?c = "\<lambda>rows. \<lparr> image_id = fresh_id (map image_id rows), image_imageId = i,
            image_productId = pl, image_alt = in_altText im, image_width = in_width im,
            image_height = in_height im, image_src = in_url im, image_updatedAt = None \<rparr>"
  have "upsert ?m (?u t) c' (snd (upsert ?m (?u (clock d)) (?c (productImages d)) (productImages d)))
      = ((\<lambda>x. x\<lparr> image_updatedAt := Some (Now t) \<rparr>)
           (fst (upsert ?m (?u (clock d)) (?c (productImages d)) (productImages d))),
         map (\<lambda>x. if ?m x then (\<lambda>x. x\<lparr> image_updatedAt := Some (Now t) \<rparr>) x else x)
           (snd (upsert ?m (?u (clock d)) (?c (productImages d)) (productImages d))))" for c'
    by (rule upsert_again) simp_all
  then show ?thesis by (simp add: upsert_image_def later_def split_def Let_def)
qed

lemma upsert_collection_twice:
  "upsert_collection s i c (later t (snd (upsert_collection s i c d)))
     = ((fst (upsert_collection s i c d))\<lparr> collection_updatedAt := Now t \<rparr>,
        (later t (snd (upsert_collection s i c d)))
          \<lparr> collections :=
              map (\<lambda>x. if collection_collectionId x = i then x\<lparr> collection_updatedAt := Now t \<rparr> else x)
                (collections (snd (upsert_collection s i c d))) \<rparr>)"
proof -
  let ?m = "\<lambda>r. collection_collectionId r = i"
  let ?u = "\<lambda>k r. r\<lparr> collection_handle := cn_handle c, collection_title := cn_title c,
                   collection_updatedAt := Now k \<rparr>"
  let ?c = "\<lparr> collection_id = fresh_id (map collection_id (collections d)),
            collection_collectionId = i, collection_shopId = s,
            collection_handle = cn_handle c, collection_title = cn_title c,
            collection_createdAt = Now (clock d), collection_updatedAt = Now (clock d) \<rparr>"
  have "upsert ?m (?u t) c' (snd (upsert ?m (?u (clock d)) ?c (collections d)))
      = ((\<lambda>x. x\<lparr> collection_updatedAt := Now t \<rparr>)
           (fst (upsert ?m (?u (clock d)) ?c (collections d))),
         map (\<lambda>x. if ?m x then (\<lambda>x. x\<lparr> collection_updatedAt := Now t \<rparr>) x else x)
           (snd (upsert ?m (?u (clock d)) ?c (collections d))))" for c'
    by (rule upsert_again) simp_all
  then show ?thesis by (simp add: upsert_collection_def later_def split_def Let_def)
qed

lemma upsert_product_one_row:
  assumes "distinct (map product_productId (products d))"
  shows "filter (\<lambda>x. product_productId x = i) (products (snd (upsert_product s i p d)))
           = [fst (upsert_product s i p d)]
         \<and> product_holds (fst (upsert_product s i p d)) i p"
  using assms
  by (simp add: upsert_product_def split_def Let_def upsert_one_row)
     (auto simp: upsert_def product_holds_def find_Some_iff split: option.splits)

lemma upsert_variant_one_row:
  assumes "distinct (map variant_variantId (productVariants d))"
  shows "filter (\<lambda>x. variant_variantId x = i) (productVariants (snd (upsert_variant pl i v d)))
           = [fst (upsert_variant pl i v d)]
         \<and> variant_holds (fst (upsert_variant pl i v d)) i v"
  using assms
  by (simp add: upsert_variant_def split_def Let_def upsert_one_row)
     (auto simp: upsert_def variant_holds_def find_Some_iff split: option.splits)

lemma upsert_image_one_row:
  assumes "distinct (map image_imageId (productImages d))"
  shows "filter (\<lambda>x. image_imageId x = i) (productImages (snd (upsert_image pl i im d)))
           = [fst (upsert_image pl i im d)]
         \<and> image_holds (fst (upsert_image pl i im d)) i im"
  using assms
  by (simp add: upsert_image_def split_def Let_def upsert_one_row)
     (auto simp: upsert_def image_holds_def find_Some_iff split: option.splits)

lemma upsert_customer_one_row:
  assumes "distinct (map customer_customerId (customers d))"
  shows "filter (\<lambda>x. customer_customerId x = i) (customers (snd (upsert_customer s i c d)))
           = [fst (upsert_customer s i c d)]
         \<and> customer_holds (fst (upsert_customer s i c d)) i c"
  using assms
  by (simp add: upsert_customer_def split_def Let_def upsert_one_row)
     (auto simp: upsert_def customer_holds_def find_Some_iff split: option.splits)

lemma upsert_customerAddress_one_row:
  assumes "distinct (map caddr_addressId (customerAddresses d))"
  shows "filter (\<lambda>x. caddr_addressId x = i) (customerAddresses (snd (upsert_customerAddress cl i a d)))
           = [fst (upsert_customerAddress cl i a d)]
         \<and> customerAddress_holds (fst (upsert_customerAddress cl i a d)) i a"
  using assms
  by (simp add: upsert_customerAddress_def split_def Let_def upsert_one_row)
     (auto simp: upsert_def customerAddress_holds_def find_Some_iff split: option.splits)

lemma upsert_collection_one_row:
  assumes "distinct (map collection_collectionId (collections d))"
  shows "filter (\<lambda>x. collection_collectionId x = i) (collections (snd (upsert_collection s i c d)))
           = [fst (upsert_collection s i c d)]
         \<and> collection_holds (fst (upsert_collection s i c d)) i c"
  using assms
  by (simp add: upsert_collection_def split_def Let_def upsert_one_row)
     (auto simp: upsert_def collection_holds_def find_Some_iff split: option.splits)

lemma upsert_order_one_row:
  assumes "distinct (map order_orderId (orders d))"
      and "upsert_order s i num c od d = (Return row, d1)"
  shows "filter (\<lambda>x. order_orderId x = i) (orders d1) = [row] \<and> order_holds row i num c od"
proof -
  from assms(2) have r: "row = fst (upsert (\<lambda>r. order_orderId r = i)
             (\<lambda>r. r\<lparr> order_orderNumber := num,
                      order_email := set_field (on_email od) (order_email r),
                      order_financialStatus := set_field (on_financialStatus od) (order_financialStatus r),
                      order_fulfillmentStatus := set_field (on_fulfillmentStatus od) (order_fulfillmentStatus r),
                      order_totalPrice := map_option ParseFloat (on_totalPrice od),
                      order_currency := set_field (on_currencyCode od) (order_currency r),
                      order_customerId := set_field c (order_customerId r),
                      order_updatedAt := DateOf (on_updatedAt od) \<rparr>)
             \<lparr> order_id = fresh_id (map order_id (orders d)),
               order_orderId = i, order_shopId = s, order_orderNumber = num,
               order_email = set_field (on_email od) None,
               order_financialStatus = set_field (on_financialStatus od) None,
               order_fulfillmentStatus = set_field (on_fulfillmentStatus od) None,
               order_totalPrice = map_option ParseFloat (on_totalPrice od),
               order_currency = set_field (on_currencyCode od) None,
               order_customerId = set_field c None,
               order_createdAt = DateOf (on_createdAt od),
               order_updatedAt = DateOf (on_updatedAt od) \<rparr>
             (orders d))"
    and d1: "orders d1 = snd (upsert (\<lambda>r. order_orderId r = i)
             (\<lambda>r. r\<lparr> order_orderNumber := num,
                      order_email := set_field (on_email od) (order_email r),
                      order_financialStatus := set_field (on_financialStatus od) (order_financialStatus r),
                      order_fulfillmentStatus := set_field (on_fulfillmentStatus od) (order_fulfillmentStatus r),
                      order_totalPrice := map_option ParseFloat (on_totalPrice od),
                      order_currency := set_field (on_currencyCode od) (order_currency r),
                      order_customerId := set_field c (order_customerId r),
                      order_updatedAt := DateOf (on_updatedAt od) \<rparr>)
             \<lparr> order_id = fresh_id (map order_id (orders d)),
               order_orderId = i, order_shopId = s, order_orderNumber = num,
               order_email = set_field (on_email od) None,
               order_financialStatus = set_field (on_financialStatus od) None,
               order_fulfillmentStatus = set_field (on_fulfillmentStatus od) None,
               order_totalPrice = map_option ParseFloat (on_totalPrice od),
               order_currency = set_field (on_currencyCode od) None,
               order_customerId = set_field c None,
               order_createdAt = DateOf (on_createdAt od),
               order_updatedAt = DateOf (on_updatedAt od) \<rparr>
             (orders d))"
    by (auto simp: upsert_order_def split_def Let_def split: if_splits)
  have "filter (\<lambda>x. order_orderId x = i) (orders d1) = [row]"
    unfolding r d1 using assms(1) by (simp add: upsert_one_row)
  moreover have "order_holds row i num c od"
    unfolding r by (auto simp: upsert_def order_holds_def find_Some_iff split: option.splits)
  ultimately show ?thesis by simp
qed

text \<open>
  Claim C2 (as amended). For each entity keyed by a remote id (product, variant, customer,
  customer address, order, image, collection), on a table whose remote keys are distinct:
  after an upsert exactly one row has the remote key, it is the row returned, and it
  holds the values of the input. A second upsert with the same key and values, at any
  later time, creates no row and returns that row; it leaves the whole store as it is for
  product, variant, customer, customer address and order, and for image and collection
  it changes only \<open>updatedAt\<close> of that row, which becomes the time of the call. The
  primary key and the creation time of the row are never written.
\<close>

theorem upsert_idempotent:
  assumes "distinct (map product_productId (products d))"
      and "distinct (map variant_variantId (productVariants d))"
      and "distinct (map image_imageId (productImages d))"
      and "distinct (map customer_customerId (customers d))"
      and "distinct (map caddr_addressId (customerAddresses d))"
      and "distinct (map order_orderId (orders d))"
      and "distinct (map collection_collectionId (collections d))"
      and "upsert_order s oi num cid od d = (Return orow, od1)"
  shows "(case upsert_product s pi p d of (r, d1) \<Rightarrow>
            filter (\<lambda>x. product_productId x = pi) (products d1) = [r] \<and> product_holds r pi p
            \<and> upsert_product s pi p (later t d1) = (r, later t d1))
       \<and> (case upsert_variant pl vi v d of (r, d1) \<Rightarrow>
            filter (\<lambda>x. variant_variantId x = vi) (productVariants d1) = [r] \<and> variant_holds r vi v
            \<and> upsert_variant pl vi v (later t d1) = (r, later t d1))
       \<and> (case upsert_customer s ci c d of (r, d1) \<Rightarrow>
            filter (\<lambda>x. customer_customerId x = ci) (customers d1) = [r] \<and> customer_holds r ci c
            \<and> upsert_customer s ci c (later t d1) = (r, later t d1))
       \<and> (case upsert_customerAddress cl ai a d of (r, d1) \<Rightarrow>
            filter (\<lambda>x. caddr_addressId x = ai) (customerAddresses d1) = [r]
            \<and> customerAddress_holds r ai a
            \<and> upsert_customerAddress cl ai a (later t d1) = (r, later t d1))
       \<and> (filter (\<lambda>x. order_orderId x = oi) (orders od1) = [orow] \<and> order_holds orow oi num cid od
            \<and> upsert_order s oi num cid od (later t od1) = (Return orow, later t od1))
       \<and> (case upsert_image pl ii im d of (r, d1) \<Rightarrow>
            filter (\<lambda>x. image_imageId x = ii) (productImages d1) = [r] \<and> image_holds r ii im
            \<and> upsert_image pl ii im (later t d1)
                = (r\<lparr> image_updatedAt := Some (Now t) \<rparr>,
                   (later t d1)\<lparr> productImages :=
                      map (\<lambda>x. if image_imageId x = ii
                                 then x\<lparr> image_updatedAt := Some (Now t) \<rparr> else x)
                        (productImages d1) \<rparr>))
       \<and> (case upsert_collection s li col d of (r, d1) \<Rightarrow>
            filter (\<lambda>x. collection_collectionId x = li) (collections d1) = [r]
            \<and> collection_holds r li col
            \<and> upsert_collection s li col (later t d1)
                = (r\<lparr> collection_updatedAt := Now t \<rparr>,
                   (later t d1)\<lparr> collections :=
                      map (\<lambda>x. if collection_collectionId x = li
                                 then x\<lparr> collection_updatedAt := Now t \<rparr> else x)
                        (collections d1) \<rparr>))"
proof -
  have o: "upsert_order s oi num cid od (later t od1) = (Return orow, later t od1)"
    using assms(8) by (rule upsert_order_again) (simp add: later_def)
  show ?thesis
    using upsert_product_one_row [OF assms(1), of pi s p] upsert_product_twice [of s pi p t d]
      upsert_variant_one_row [OF assms(2), of vi pl v] upsert_variant_twice [of pl vi v t d]
      upsert_customer_one_row [OF assms(4), of ci s c] upsert_customer_twice [of s ci c t d]
      upsert_customerAddress_one_row [OF assms(5), of ai cl a]
      upsert_customerAddress_twice [of cl ai a t d]
      upsert_order_one_row [OF assms(6) assms(8)] o
      upsert_image_one_row [OF assms(3), of ii pl im] upsert_image_twice [of pl ii im t d]
      upsert_collection_one_row [OF assms(7), of li s col] upsert_collection_twice [of s li col t d]
    by (simp add: split_def)
qed

theorem upsert_idempotent_witness:
  "distinct (map product_productId (products one_product_db))
   \<and> distinct (map collection_collectionId (collections one_product_db))
   \<and> returns (fst (upsert_order 1 500 ''1001'' Null an_order one_product_db))
   \<and> upsert_product 1 1 (a_product ''gid://shopify/Product/1'' ''gid://shopify/ProductVariant/11'')
         (later 9 (snd (upsert_product 1 1
            (a_product ''gid://shopify/Product/1'' ''gid://shopify/ProductVariant/11'') one_product_db)))
       = (fst (upsert_product 1 1
            (a_product ''gid://shopify/Product/1'' ''gid://shopify/ProductVariant/11'') one_product_db),
          later 9 (snd (upsert_product 1 1
            (a_product ''gid://shopify/Product/1'' ''gid://shopify/ProductVariant/11'') one_product_db)))
   \<and> map collection_id (collections (snd (upsert_collection 1 100 a_collection
         (later 9 (snd (upsert_collection 1 100 a_collection one_product_db)))))) = [1]
   \<and> map collection_updatedAt (collections (snd (upsert_collection 1 100 a_collection
         (later 9 (snd (upsert_collection 1 100 a_collection one_product_db)))))) = [Now 9]"
proof -
  let ?P = "a_product ''gid://shopify/Product/1'' ''gid://shopify/ProductVariant/11''"
  let ?o = "upsert_order 1 500 ''1001'' Null an_order one_product_db"
  have d: "distinct (map product_productId (products one_product_db))"
    "distinct (map variant_variantId (productVariants one_product_db))"
    "distinct (map image_imageId (productImages one_product_db))"
    "distinct (map customer_customerId (customers one_product_db))"
    "distinct (map caddr_addressId (customerAddresses one_product_db))"
    "distinct (map order_orderId (orders one_product_db))"
    "distinct (map collection_collectionId (collections one_product_db))"
    by (simp_all add: one_product_db_def store_eval BigInt_eval)
  have ro: "returns (fst ?o)"
    by (simp add: upsert_order_def one_product_db_def store_eval BigInt_eval split_def)
  then obtain orow where "fst ?o = Return orow" by (cases "fst ?o") auto
  then have o: "?o = (Return orow, snd ?o)" by (simp add: prod_eq_iff)
  have c1: "map collection_id (collections (snd (upsert_collection 1 100 a_collection one_product_db))) = [1]"
    by (simp add: one_product_db_def store_eval BigInt_eval)
  from upsert_idempotent [OF d o, where pi = 1 and p = ?P and t = 9 and li = 100
      and col = a_collection]
  have p: "upsert_product 1 1 ?P (later 9 (snd (upsert_product 1 1 ?P one_product_db)))
       = (fst (upsert_product 1 1 ?P one_product_db),
          later 9 (snd (upsert_product 1 1 ?P one_product_db)))"
    and c: "upsert_collection 1 100 a_collection
              (later 9 (snd (upsert_collection 1 100 a_collection one_product_db)))
       = ((fst (upsert_collection 1 100 a_collection one_product_db))\<lparr> collection_updatedAt := Now 9 \<rparr>,
          (later 9 (snd (upsert_collection 1 100 a_collection one_product_db)))
             \<lparr> collections :=
                 map (\<lambda>x. if collection_collectionId x = 100
                            then x\<lparr> collection_updatedAt := Now 9 \<rparr> else x)
                   (collections (snd (upsert_collection 1 100 a_collection one_product_db))) \<rparr>)"
    by (simp_all add: split_def)
  have "map collection_id (collections (snd (upsert_collection 1 100 a_collection
         (later 9 (snd (upsert_collection 1 100 a_collection one_product_db)))))) = [1]"
    and "map collection_updatedAt (collections (snd (upsert_collection 1 100 a_collection
         (later 9 (snd (upsert_collection 1 100 a_collection one_product_db)))))) = [Now 9]"
    unfolding c by (simp_all add: one_product_db_def store_eval BigInt_eval)
  then show ?thesis using d ro p by simp
qed

text \<open>
  The claim as written fails for a collection: with identical input the second upsert is
  not a no-op, it moves \<open>updatedAt\<close> from the time of the first call to that of the second.
\<close>

theorem upsert_idempotent_counterexample:
  "map collection_updatedAt
     (collections (snd (upsert_collection 1 100 a_collection empty_db))) = [Now 0]
   \<and> map collection_updatedAt
     (collections (snd (upsert_collection 1 100 a_collection
        (later 5 (snd (upsert_collection 1 100 a_collection empty_db)))))) = [Now 5]"
  by (simp add: later_def store_eval)

section \<open>Theorems: webhook registration\<close>

lemma createWebhooks_results:
  "map rr_topic (fst (createWebhooks api appUrl ts subs)) = map fst ts
   \<and> list_all status_known (fst (createWebhooks api appUrl ts subs))"
proof (induction ts arbitrary: subs)
  case Nil
  then show ?case by simp
next
  case (Cons tu ts)
  obtain topic uri where tu: "tu = (topic, uri)" by (cases tu)
  show ?case
    using Cons.IH
    by (cases "create_response api (topic_name topic)")
       (simp_all add: tu split_def Let_def status_known_def)
qed

lemma registerWebhooks_unfold:
  assumes "list_error api = None"
      and "(if truthy envUrl then envUrl else configUrl) = Some appUrl" and "appUrl \<noteq> []"
  shows "registerWebhooks api envUrl configUrl subs =
     (if converged (take 50 subs) appUrl then (Return [], subs, [])
      else
        (let d = (if filter (pointsToOldUrl appUrl) (take 50 subs) \<noteq> []
                  then deleteOldWebhooks api (filter (pointsToOldUrl appUrl) (take 50 subs)) subs
                  else (subs, []));
             c = createWebhooks api appUrl (needing (take 50 subs) appUrl) (fst d)
         in (Return (fst c @
               map (\<lambda>(topic, uri). \<lparr> rr_topic = topic, rr_status = ''exists'', rr_webhook = None,
                                    rr_errors = None, rr_error = None \<rparr>)
                 (filter (\<lambda>(topic, uri). hasCorrectWebhook (take 50 subs) appUrl topic) webhookTopics)),
             fst (snd c), snd d @ snd (snd c))))"
  using assms by (simp add: registerWebhooks_def converged_def needing_def Let_def split_def)

lemma registerWebhooks_returns:
  assumes "registerWebhooks api envUrl configUrl subs = (Return results, subs', calls)"
  shows "list_error api = None
     \<and> (\<exists>appUrl. (if truthy envUrl then envUrl else configUrl) = Some appUrl \<and> appUrl \<noteq> [])"
proof -
  from assms have le: "list_error api = None"
    by (cases "list_error api") (auto simp: registerWebhooks_def)
  from assms le obtain appUrl where
    u: "(if truthy envUrl then envUrl else configUrl) = Some appUrl"
    by (cases "if truthy envUrl then envUrl else configUrl")
       (auto simp: registerWebhooks_def Let_def)
  from assms le u have ne: "appUrl \<noteq> []"
    by (cases "appUrl = []") (auto simp: registerWebhooks_def Let_def)
  show ?thesis using le u ne by blast
qed

text \<open>
  Claim C5 (as amended). Whenever \<open>registerWebhooks\<close> returns, the app URL was found and
  every entry of the list has one of the statuses created, failed, error and exists. When
  the listed subscriptions are not empty, none points to an old URL and every topic has a
  webhook with the correct URL, the list is empty and nothing is sent; in every other
  case the list has one entry for each of the topics.
\<close>

theorem registerWebhooks_results:
  assumes "registerWebhooks api envUrl configUrl subs = (Return results, subs', calls)"
  shows "\<exists>appUrl. (if truthy envUrl then envUrl else configUrl) = Some appUrl \<and> appUrl \<noteq> []
         \<and> list_all status_known results
         \<and> (if converged (take 50 subs) appUrl
             then results = [] \<and> calls = [] \<and> subs' = subs
             else length results = length webhookTopics
                  \<and> set (map rr_topic results) = set (map fst webhookTopics))"
proof -
  from registerWebhooks_returns [OF assms] obtain appUrl where
    le: "list_error api = None" and
    u: "(if truthy envUrl then envUrl else configUrl) = Some appUrl" and ne: "appUrl \<noteq> []"
    by blast
  note unf = registerWebhooks_unfold [OF le u ne, of subs]
  let ?ex = "take 50 subs"
  let ?have = "filter (\<lambda>(topic, uri). hasCorrectWebhook ?ex appUrl topic) webhookTopics"
  show ?thesis
  proof (cases "converged ?ex appUrl")
    case True
    then have "results = [] \<and> calls = [] \<and> subs' = subs"
      using assms unf by simp
    then show ?thesis using u ne True by auto
  next
    case False
    let ?d = "if filter (pointsToOldUrl appUrl) ?ex \<noteq> []
              then deleteOldWebhooks api (filter (pointsToOldUrl appUrl) ?ex) subs else (subs, [])"
    let ?c = "createWebhooks api appUrl (needing ?ex appUrl) (fst ?d)"
    let ?e = "map (\<lambda>(topic, uri). \<lparr> rr_topic = topic, rr_status = ''exists'', rr_webhook = None,
                                    rr_errors = None, rr_error = None \<rparr>) ?have"
    from assms unf False have r: "results = fst ?c @ ?e"
      by (simp add: Let_def)
    note cw = createWebhooks_results [of api appUrl "needing ?ex appUrl" "fst ?d"]
    have t: "map rr_topic results = map fst (needing ?ex appUrl) @ map fst ?have"
      using cw by (simp add: r split_def comp_def)
    have "length (map rr_topic results) = length (needing ?ex appUrl) + length ?have"
      by (subst t) simp
    then have len: "length results = length webhookTopics"
      using sum_length_filter_compl [of "\<lambda>(topic, uri). hasCorrectWebhook ?ex appUrl topic" webhookTopics]
      by (simp add: split_def needing_def)
    have st: "set (map rr_topic results) = set (map fst webhookTopics)"
      by (subst t) (auto simp: split_def needing_def)
    have "list_all status_known ?e" by (simp add: list_all_iff status_known_def split_def)
    then have sk: "list_all status_known results" using cw by (simp add: r)
    show ?thesis using u ne False len st sk by auto
  qed
qed

lemma str_includes_prefix: "str_includes (a @ b) a"
proof (cases "a @ b")
  case Nil
  then show ?thesis by simp
next
  case (Cons c cs)
  have "prefix a (c # cs)" unfolding Cons [symmetric] by simp
  then show ?thesis using Cons by simp
qed

lemma deleteOldWebhooks_accepted:
  assumes "\<forall>i. delete_response api i = Accepted"
  shows "deleteOldWebhooks api ws subs
           = (filter (\<lambda>w. wh_id w \<notin> wh_id ` set ws) subs, map (\<lambda>w. Delete (wh_id w)) ws)"
proof (induction ws arbitrary: subs)
  case Nil
  then show ?case by simp
next
  case (Cons w ws)
  have "remote_delete api (wh_id w) subs = filter (\<lambda>x. wh_id x \<noteq> wh_id w) subs"
    using assms by (simp add: remote_delete_def)
  then show ?case using Cons.IH by (auto simp: Let_def intro: filter_cong)
qed

lemma delete_exactly:
  assumes "distinct (map wh_id subs)"
  shows "filter (\<lambda>w. wh_id w \<notin> wh_id ` set (filter P subs)) subs = filter (\<lambda>w. \<not> P w) subs"
proof (rule filter_cong [OF refl])
  fix w assume w: "w \<in> set subs"
  have inj: "inj_on wh_id (set subs)" using assms by (simp add: distinct_map)
  show "(wh_id w \<notin> wh_id ` set (filter P subs)) = (\<not> P w)"
  proof
    assume "wh_id w \<notin> wh_id ` set (filter P subs)"
    then show "\<not> P w" using w by auto
  next
    assume n: "\<not> P w"
    show "wh_id w \<notin> wh_id ` set (filter P subs)"
    proof
      assume "wh_id w \<in> wh_id ` set (filter P subs)"
      then obtain x where x: "x \<in> set subs" "P x" "wh_id x = wh_id w" by auto
      then have "x = w" using inj w by (auto dest: inj_onD)
      then show False using x n by simp
    qed
  qed
qed

lemma createWebhooks_accepted:
  assumes "\<forall>t. create_response api t = Accepted"
  shows "\<exists>new. fst (snd (createWebhooks api appUrl ts subs)) = subs @ new
           \<and> length new = length ts
           \<and> (\<forall>w \<in> set new. \<not> pointsToOldUrl appUrl w)
           \<and> (\<forall>(t, u) \<in> set ts. hasCorrectWebhook new appUrl t)
           \<and> snd (snd (createWebhooks api appUrl ts subs))
               = map (\<lambda>(t, u). Create (topic_name t) (appUrl @ u)) ts"
proof (induction ts arbitrary: subs)
  case Nil
  then show ?case by simp
next
  case (Cons tu ts)
  obtain topic uri where tu: "tu = (topic, uri)" by (cases tu)
  let ?w = "\<lparr> wh_id = fresh_id (map wh_id subs), wh_topic = topic_name topic,
              wh_callbackUrl = Some (appUrl @ uri) \<rparr>"
  from Cons.IH [of "subs @ [?w]"] obtain new where
    n: "fst (snd (createWebhooks api appUrl ts (subs @ [?w]))) = (subs @ [?w]) @ new"
    "length new = length ts"
    "\<forall>w \<in> set new. \<not> pointsToOldUrl appUrl w"
    "\<forall>(t, u) \<in> set ts. hasCorrectWebhook new appUrl t"
    "snd (snd (createWebhooks api appUrl ts (subs @ [?w])))
               = map (\<lambda>(t, u). Create (topic_name t) (appUrl @ u)) ts"
    by blast
  have a: "create_response api (topic_name topic) = Accepted" using assms by simp
  have 1: "fst (snd (createWebhooks api appUrl (tu # ts) subs)) = subs @ (?w # new)"
    using n(1) a by (simp add: tu split_def Let_def)
  have 2: "length (?w # new) = length (tu # ts)" using n(2) by simp
  have 3: "\<forall>w \<in> set (?w # new). \<not> pointsToOldUrl appUrl w"
    using n(3) by (simp add: pointsToOldUrl_def str_includes_prefix)
  have 4: "\<forall>(t, u) \<in> set (tu # ts). hasCorrectWebhook (?w # new) appUrl t"
    using n(4) by (auto simp: tu hasCorrectWebhook_def str_includes_prefix)
  have 5: "snd (snd (createWebhooks api appUrl (tu # ts) subs))
               = map (\<lambda>(t, u). Create (topic_name t) (appUrl @ u)) (tu # ts)"
    using n(5) a by (simp add: tu split_def Let_def)
  show ?case using 1 2 3 4 5 by blast
qed

lemma hasCorrect_not_old:
  "w \<in> set subs \<Longrightarrow> wh_topic w = topic_name t \<Longrightarrow>
   (case wh_callbackUrl w of None \<Rightarrow> False | Some u \<Rightarrow> str_includes u appUrl) \<Longrightarrow>
   \<not> pointsToOldUrl appUrl w"
  by (auto simp: pointsToOldUrl_def split: option.splits)

text \<open>
  Claim C3. Against a remote that carries out every mutation, with at most 46
  subscriptions under distinct ids: a pass deletes exactly the subscriptions that point to
  an old URL and creates, at app URL + path, exactly the topics that have no webhook with
  the correct URL, so a subscription at an old base URL is deleted and both its topic and
  a topic without any subscription are created; a second pass against the subscriptions
  the first has left returns at once and sends nothing.
\<close>

theorem reconciliation_converges:
  assumes api: "list_error api = None" "\<forall>i. delete_response api i = Accepted"
        "\<forall>t. create_response api t = Accepted"
      and url: "(if truthy envUrl then envUrl else configUrl) = Some appUrl" "appUrl \<noteq> []"
      and subs: "distinct (map wh_id subs)" "length subs \<le> 46"
  shows "\<exists>results subs1 calls.
           registerWebhooks api envUrl configUrl subs = (Return results, subs1, calls)
         \<and> calls = map (\<lambda>w. Delete (wh_id w)) (filter (pointsToOldUrl appUrl) subs)
                   @ map (\<lambda>(t, u). Create (topic_name t) (appUrl @ u)) (needing subs appUrl)
         \<and> (\<forall>w \<in> set subs. pointsToOldUrl appUrl w \<longrightarrow> Delete (wh_id w) \<in> set calls)
         \<and> (\<forall>(t, u) \<in> set webhookTopics. \<not> hasCorrectWebhook subs appUrl t \<longrightarrow>
                Create (topic_name t) (appUrl @ u) \<in> set calls)
         \<and> registerWebhooks api envUrl configUrl subs1 = (Return [], subs1, [])"
proof -
  have t50: "take 50 subs = subs" using subs(2) by simp
  note unf = registerWebhooks_unfold [OF api(1) url]
  let ?old = "filter (pointsToOldUrl appUrl) subs"
  let ?calls = "map (\<lambda>w. Delete (wh_id w)) ?old
                   @ map (\<lambda>(t, u). Create (topic_name t) (appUrl @ u)) (needing subs appUrl)"
  have mem: "(\<forall>w \<in> set subs. pointsToOldUrl appUrl w \<longrightarrow> Delete (wh_id w) \<in> set ?calls)
         \<and> (\<forall>(t, u) \<in> set webhookTopics. \<not> hasCorrectWebhook subs appUrl t \<longrightarrow>
                Create (topic_name t) (appUrl @ u) \<in> set ?calls)"
    by (auto simp: needing_def)
  show ?thesis
  proof (cases "converged subs appUrl")
    case True
    then have "registerWebhooks api envUrl configUrl subs = (Return [], subs, [])"
      using unf [of subs, unfolded t50] by simp
    moreover have "?calls = []" using True by (simp add: converged_def)
    ultimately show ?thesis using mem by auto
  next
    case False
    let ?d = "if ?old \<noteq> [] then deleteOldWebhooks api ?old subs else (subs, [])"
    have d: "?d = (filter (\<lambda>w. \<not> pointsToOldUrl appUrl w) subs, map (\<lambda>w. Delete (wh_id w)) ?old)"
    proof (cases "?old = []")
      case True
      then have "filter (\<lambda>w. \<not> pointsToOldUrl appUrl w) subs = subs"
        by (auto simp: filter_empty_conv filter_id_conv)
      then show ?thesis using True by simp
    next
      case False
      then show ?thesis
        using deleteOldWebhooks_accepted [OF api(2), of ?old subs] delete_exactly [OF subs(1)]
        by simp
    qed
    let ?kept = "filter (\<lambda>w. \<not> pointsToOldUrl appUrl w) subs"
    let ?c = "createWebhooks api appUrl (needing subs appUrl) ?kept"
    from createWebhooks_accepted [OF api(3), of appUrl "needing subs appUrl" ?kept]
    obtain new where
      n: "fst (snd ?c) = ?kept @ new" "length new = length (needing subs appUrl)"
      "\<forall>w \<in> set new. \<not> pointsToOldUrl appUrl w"
      "\<forall>(t, u) \<in> set (needing subs appUrl). hasCorrectWebhook new appUrl t"
      "snd (snd ?c) = map (\<lambda>(t, u). Create (topic_name t) (appUrl @ u)) (needing subs appUrl)"
      by blast
    let ?subs1 = "?kept @ new"
    have run1: "registerWebhooks api envUrl configUrl subs
        = (Return (fst ?c @
               map (\<lambda>(topic, uri). \<lparr> rr_topic = topic, rr_status = ''exists'', rr_webhook = None,
                                    rr_errors = None, rr_error = None \<rparr>)
                 (filter (\<lambda>(topic, uri). hasCorrectWebhook subs appUrl topic) webhookTopics)),
           ?subs1, ?calls)"
      using unf [of subs, unfolded t50] False d n(1) n(5) by (simp add: Let_def)
    have "length (needing subs appUrl) \<le> length webhookTopics" by (simp add: needing_def)
    then have l4: "length new \<le> 4" using n(2) by (simp add: webhookTopics_def)
    have "length ?kept \<le> 46"
      using subs(2) length_filter_le [of "\<lambda>w. \<not> pointsToOldUrl appUrl w" subs] by linarith
    then have "length ?subs1 \<le> 50" using l4 by simp
    then have t50': "take 50 ?subs1 = ?subs1" by simp
    have noold: "filter (pointsToOldUrl appUrl) ?subs1 = []"
      using n(3) by (auto simp: filter_empty_conv)
    have correct: "\<forall>(t, u) \<in> set webhookTopics. hasCorrectWebhook ?subs1 appUrl t"
    proof (clarify)
      fix t u assume tu: "(t, u) \<in> set webhookTopics"
      show "hasCorrectWebhook ?subs1 appUrl t"
      proof (cases "hasCorrectWebhook subs appUrl t")
        case True
        then obtain w where w: "w \<in> set subs" "wh_topic w = topic_name t"
          "case wh_callbackUrl w of None \<Rightarrow> False | Some u \<Rightarrow> str_includes u appUrl"
          by (auto simp: hasCorrectWebhook_def)
        then have "w \<in> set ?kept" using hasCorrect_not_old by auto
        then show ?thesis using w by (auto simp: hasCorrectWebhook_def)
      next
        case False
        then have "(t, u) \<in> set (needing subs appUrl)" using tu by (simp add: needing_def)
        then have "hasCorrectWebhook new appUrl t" using n(4) by auto
        then show ?thesis by (auto simp: hasCorrectWebhook_def)
      qed
    qed
    then have need1: "needing ?subs1 appUrl = []"
      by (auto simp: needing_def filter_empty_conv)
    have "(''products/create'', ''/webhooks/products/create'') \<in> set webhookTopics"
      by (simp add: webhookTopics_def)
    then have "hasCorrectWebhook ?subs1 appUrl ''products/create''" using correct by blast
    then obtain w0 where "w0 \<in> set ?subs1" unfolding hasCorrectWebhook_def by blast
    then have ne1: "?subs1 \<noteq> []" by (metis empty_iff empty_set)
    have "converged ?subs1 appUrl" using ne1 noold need1 by (simp add: converged_def)
    then have run2: "registerWebhooks api envUrl configUrl ?subs1 = (Return [], ?subs1, [])"
      using unf [of ?subs1, unfolded t50'] by simp
    show ?thesis using run1 run2 mem by blast
  qed
qed

lemma stale_and_missing_old:
  "filter (pointsToOldUrl ''https://new.example.com'') stale_and_missing
     = [\<lparr> wh_id = 1, wh_topic = ''PRODUCTS_CREATE'',
          wh_callbackUrl = Some ''https://old.example.com/webhooks/products/create'' \<rparr>]"
  "needing stale_and_missing ''https://new.example.com''
     = [(''products/create'', ''/webhooks/products/create''),
        (''products/update'', ''/webhooks/products/update'')]"
  by (simp_all add: needing_def hasCorrectWebhook_def pointsToOldUrl_def topic_name_def
      webhookTopics_def stale_and_missing_def)

theorem reconciliation_converges_witness:
  "\<exists>results subs1.
     registerWebhooks accepting_api (Some ''https://new.example.com'') None stale_and_missing
       = (Return results, subs1,
          [Delete 1,
           Create ''PRODUCTS_CREATE'' ''https://new.example.com/webhooks/products/create'',
           Create ''PRODUCTS_UPDATE'' ''https://new.example.com/webhooks/products/update''])
     \<and> registerWebhooks accepting_api (Some ''https://new.example.com'') None subs1
       = (Return [], subs1, [])"
proof -
  have a: "list_error accepting_api = None" "\<forall>i. delete_response accepting_api i = Accepted"
    "\<forall>t. create_response accepting_api t = Accepted"
    by (simp_all add: accepting_api_def)
  have u: "(if truthy (Some ''https://new.example.com'') then Some ''https://new.example.com'' else None)
      = Some ''https://new.example.com''" "''https://new.example.com'' \<noteq> []"
    by simp_all
  have s: "distinct (map wh_id stale_and_missing)" "length stale_and_missing \<le> 46"
    by (simp_all add: stale_and_missing_def)
  from reconciliation_converges [OF a u s] obtain results subs1 calls where
    run: "registerWebhooks accepting_api (Some ''https://new.example.com'') None stale_and_missing
            = (Return results, subs1, calls)"
    and calls: "calls = map (\<lambda>w. Delete (wh_id w))
                         (filter (pointsToOldUrl ''https://new.example.com'') stale_and_missing)
                   @ map (\<lambda>(t, u). Create (topic_name t) (''https://new.example.com'' @ u))
                       (needing stale_and_missing ''https://new.example.com'')"
    and run2: "registerWebhooks accepting_api (Some ''https://new.example.com'') None subs1
            = (Return [], subs1, [])"
    by blast
  have "calls = [Delete 1,
           Create ''PRODUCTS_CREATE'' ''https://new.example.com/webhooks/products/create'',
           Create ''PRODUCTS_UPDATE'' ''https://new.example.com/webhooks/products/update'']"
    unfolding calls stale_and_missing_old by (simp add: topic_name_def)
  then show ?thesis using run run2 by blast
qed

lemma stale_and_missing_have:
  "filter (\<lambda>(topic, uri). hasCorrectWebhook stale_and_missing ''https://new.example.com'' topic)
     webhookTopics
     = [(''app/uninstalled'', ''/webhooks/app/uninstalled''),
        (''app/scopes_update'', ''/webhooks/app/scopes_update'')]"
  "take 50 stale_and_missing = stale_and_missing"
  "\<not> converged stale_and_missing ''https://new.example.com''"
  by (simp_all add: hasCorrectWebhook_def topic_name_def webhookTopics_def stale_and_missing_def
      converged_def needing_def)

lemma rejecting_statuses:
  "map rr_status (case fst (registerWebhooks rejecting_api (Some ''https://new.example.com'') None
                              stale_and_missing) of Return r \<Rightarrow> r | Throw e \<Rightarrow> [])
     = [''created'', ''error'', ''exists'', ''exists'']"
proof -
  have "registerWebhooks rejecting_api (Some ''https://new.example.com'') None stale_and_missing =
     (if converged (take 50 stale_and_missing) ''https://new.example.com''
      then (Return [], stale_and_missing, [])
      else
        (let d = (if filter (pointsToOldUrl ''https://new.example.com'') (take 50 stale_and_missing) \<noteq> []
                  then deleteOldWebhooks rejecting_api
                         (filter (pointsToOldUrl ''https://new.example.com'') (take 50 stale_and_missing))
                         stale_and_missing
                  else (stale_and_missing, []));
             c = createWebhooks rejecting_api ''https://new.example.com''
                   (needing (take 50 stale_and_missing) ''https://new.example.com'') (fst d)
         in (Return (fst c @
               map (\<lambda>(topic, uri). \<lparr> rr_topic = topic, rr_status = ''exists'', rr_webhook = None,
                                    rr_errors = None, rr_error = None \<rparr>)
                 (filter (\<lambda>(topic, uri). hasCorrectWebhook (take 50 stale_and_missing)
                            ''https://new.example.com'' topic) webhookTopics)),
             fst (snd c), snd d @ snd (snd c))))"
    by (rule registerWebhooks_unfold) (simp_all add: rejecting_api_def)
  then show ?thesis
    using stale_and_missing_have(3)
    unfolding stale_and_missing_have(1,2) stale_and_missing_old
    by (simp add: Let_def split_def rejecting_api_def topic_name_def)
qed

lemma four_correct_facts:
  "take 50 four_correct = four_correct"
  "filter (pointsToOldUrl ''https://new.example.com'') four_correct = []"
  "needing four_correct ''https://new.example.com'' = []"
  by (simp_all add: needing_def hasCorrectWebhook_def pointsToOldUrl_def topic_name_def
      webhookTopics_def four_correct_def)

theorem registerWebhooks_results_witness:
  "map rr_status (case fst (registerWebhooks rejecting_api (Some ''https://new.example.com'') None
                              stale_and_missing) of Return r \<Rightarrow> r | Throw e \<Rightarrow> [])
     = [''created'', ''error'', ''exists'', ''exists'']
   \<and> (\<exists>results subs' calls.
         registerWebhooks rejecting_api (Some ''https://new.example.com'') None stale_and_missing
           = (Return results, subs', calls)
       \<and> list_all status_known results \<and> length results = 4
       \<and> set (map rr_topic results)
           = {''products/create'', ''products/update'', ''app/uninstalled'', ''app/scopes_update''})"
proof -
  let ?r = "registerWebhooks rejecting_api (Some ''https://new.example.com'') None stale_and_missing"
  obtain results where res: "fst ?r = Return results"
  proof (cases "fst ?r")
    case (Return r)
    then show ?thesis using that by blast
  next
    case (Throw e)
    then show ?thesis using rejecting_statuses by simp
  qed
  then have run: "?r = (Return results, fst (snd ?r), snd (snd ?r))" by (simp add: prod_eq_iff)
  have nc: "\<not> converged (take 50 stale_and_missing) ''https://new.example.com''"
    unfolding stale_and_missing_have(2) by (rule stale_and_missing_have(3))
  from registerWebhooks_results [OF run] obtain appUrl where
    u: "(if truthy (Some ''https://new.example.com'') then Some ''https://new.example.com'' else None)
          = Some appUrl"
    and k: "list_all status_known results"
    and c: "if converged (take 50 stale_and_missing) appUrl
             then results = [] \<and> snd (snd ?r) = [] \<and> fst (snd ?r) = stale_and_missing
             else length results = length webhookTopics
                  \<and> set (map rr_topic results) = set (map fst webhookTopics)"
    by blast
  from u have "appUrl = ''https://new.example.com''" by simp
  with c nc have l: "length results = length webhookTopics"
    and s: "set (map rr_topic results) = set (map fst webhookTopics)"
    by simp_all
  have l4: "length results = 4" unfolding l by (simp add: webhookTopics_def)
  have s4: "set (map rr_topic results)
      = {''products/create'', ''products/update'', ''app/uninstalled'', ''app/scopes_update''}"
    unfolding s by (simp add: webhookTopics_def)
  have "\<exists>results subs' calls. ?r = (Return results, subs', calls)
       \<and> list_all status_known results \<and> length results = 4
       \<and> set (map rr_topic results)
           = {''products/create'', ''products/update'', ''app/uninstalled'', ''app/scopes_update''}"
    using run k l4 s4 by blast
  then show ?thesis using rejecting_statuses by (rule conjI [rotated])
qed

text \<open>
  The claim as written fails twice: with all four subscriptions in place the list is
  empty, so no topic is covered; and a creation that throws is reported with the status
  error, which is none of created, exists and failed.
\<close>

theorem registerWebhooks_results_counterexample:
  "registerWebhooks accepting_api (Some ''https://new.example.com'') None four_correct
     = (Return [], four_correct, [])
   \<and> map rr_status (case fst (registerWebhooks rejecting_api (Some ''https://new.example.com'') None
                              stale_and_missing) of Return r \<Rightarrow> r | Throw e \<Rightarrow> [])
     = [''created'', ''error'', ''exists'', ''exists'']"
proof -
  have ne: "four_correct \<noteq> []" by (simp add: four_correct_def)
  have c: "converged (take 50 four_correct) ''https://new.example.com''"
    unfolding four_correct_facts(1) converged_def four_correct_facts(2,3) using ne by simp
  have "registerWebhooks accepting_api (Some ''https://new.example.com'') None four_correct
     = (if converged (take 50 four_correct) ''https://new.example.com''
        then (Return [], four_correct, [])
        else
        (let d = (if filter (pointsToOldUrl ''https://new.example.com'') (take 50 four_correct) \<noteq> []
                  then deleteOldWebhooks accepting_api
                         (filter (pointsToOldUrl ''https://new.example.com'') (take 50 four_correct))
                         four_correct
                  else (four_correct, []));
             c = createWebhooks accepting_api ''https://new.example.com''
                   (needing (take 50 four_correct) ''https://new.example.com'') (fst d)
         in (Return (fst c @
               map (\<lambda>(topic, uri). \<lparr> rr_topic = topic, rr_status = ''exists'', rr_webhook = None,
                                    rr_errors = None, rr_error = None \<rparr>)
                 (filter (\<lambda>(topic, uri). hasCorrectWebhook (take 50 four_correct)
                            ''https://new.example.com'' topic) webhookTopics)),
             fst (snd c), snd d @ snd (snd c))))"
    by (rule registerWebhooks_unfold) (simp_all add: accepting_api_def)
  also have "\<dots> = (Return [], four_correct, [])" using c by (simp only: if_True)
  finally show ?thesis using rejecting_statuses by (rule conjI)
qed

end
